theory Spec2Isabelle
  imports Main
begin

section \<open>Fixed-point transformer forward pass (forward\_reference.py)\<close>

text \<open>
  A shallow embedding of \<^verbatim>\<open>todo-microservices/llm-service/forward_reference.py\<close>.
  Python integers are unbounded, so every number is an \<open>int\<close>; \<open>//\<close> is floor
  division, which is \<open>div\<close> on \<open>int\<close>. Every exception the Python can raise is a
  value of \<open>py_error\<close>, and a function that can raise returns \<open>py_error + 'a\<close>.
\<close>

subsection \<open>Errors, sequencing and Python's built-ins\<close>

datatype py_error = IndexError | KeyError | ZeroDivisionError | ValueError

definition bindE :: "py_error + 'a \<Rightarrow> ('a \<Rightarrow> py_error + 'b) \<Rightarrow> py_error + 'b" where
  "bindE m f = (case m of Inl e \<Rightarrow> Inl e | Inr x \<Rightarrow> f x)"

text \<open>A comprehension or an appending loop: left to right, stopping at the first raise.\<close>

fun mapM :: "('a \<Rightarrow> py_error + 'b) \<Rightarrow> 'a list \<Rightarrow> py_error + 'b list" where
  "mapM f [] = Inr []"
| "mapM f (x # xs) = bindE (f x) (\<lambda>y. bindE (mapM f xs) (\<lambda>ys. Inr (y # ys)))"

text \<open>A loop that updates one variable (\<^verbatim>\<open>s += ...\<close>, \<^verbatim>\<open>hidden = ...\<close>).\<close>

fun foldM :: "('b \<Rightarrow> 'a \<Rightarrow> py_error + 'b) \<Rightarrow> 'a list \<Rightarrow> 'b \<Rightarrow> py_error + 'b" where
  "foldM f [] s = Inr s"
| "foldM f (x # xs) s = bindE (f s x) (foldM f xs)"

text \<open>\<^verbatim>\<open>range(n)\<close>: empty when \<open>n \<le> 0\<close>.\<close>

definition range_py :: "int \<Rightarrow> int list" where
  "range_py n = map int [0..<nat n]"

text \<open>\<^verbatim>\<open>xs[i]\<close>: a negative index counts from the end; out of range raises IndexError.\<close>

definition py_index :: "'a list \<Rightarrow> int \<Rightarrow> py_error + 'a" where
  "py_index xs i =
     (let n = int (length xs);
          j = (if i < 0 then i + n else i)
      in if 0 \<le> j \<and> j < n then Inr (xs ! nat j) else Inl IndexError)"

text \<open>\<^verbatim>\<open>xs[:n]\<close>: a negative bound counts from the end.\<close>

definition py_slice_to :: "'a list \<Rightarrow> int \<Rightarrow> 'a list" where
  "py_slice_to xs n = (if n < 0 then take (nat (int (length xs) + n)) xs else take (nat n) xs)"

text \<open>\<^verbatim>\<open>a // b\<close> with a divisor that the code does not guard.\<close>

definition py_floordiv :: "int \<Rightarrow> int \<Rightarrow> py_error + int" where
  "py_floordiv a b = (if b = 0 then Inl ZeroDivisionError else Inr (a div b))"

text \<open>\<^verbatim>\<open>d[k]\<close> on a dict: a missing key raises KeyError.\<close>

definition dict_get :: "('k \<rightharpoonup> 'v) \<Rightarrow> 'k \<Rightarrow> py_error + 'v" where
  "dict_get d k = (case d k of None \<Rightarrow> Inl KeyError | Some v \<Rightarrow> Inr v)"

text \<open>\<^verbatim>\<open>max(arr)\<close>: ValueError on an empty list.\<close>

fun py_max :: "int list \<Rightarrow> py_error + int" where
  "py_max [] = Inl ValueError"
| "py_max (x # xs) = Inr (fold max xs x)"

text \<open>\<^verbatim>\<open>str(n)\<close> of an integer, as the f-strings that name the per-layer weights use it.\<close>

fun str_nat :: "nat \<Rightarrow> string" where
  "str_nat n = (if n < 10 then [char_of (48 + n)] else str_nat (n div 10) @ [char_of (48 + n mod 10)])"

definition py_str :: "int \<Rightarrow> string" where
  "py_str i = (if i < 0 then CHR ''-'' # str_nat (nat (- i)) else str_nat (nat i))"

subsection \<open>Fixed-point math\<close>

definition SCALE :: int where
  "SCALE = 10000"

text \<open>
  The Taylor loop of \<^verbatim>\<open>fp_exp\<close>, \<^verbatim>\<open>for i in range(1, 16)\<close>, over the list of its
  indices; the \<^verbatim>\<open>break\<close> returns the result accumulated so far.
\<close>

fun exp_loop :: "nat list \<Rightarrow> int \<Rightarrow> int \<Rightarrow> int \<Rightarrow> int" where
  "exp_loop [] x term result = result"
| "exp_loop (i # is) x term result =
     (let term' = (term * x) div (int i * SCALE);
          result' = result + term'
      in if term' < 1 then result' else exp_loop is x term' result')"

definition fp_exp :: "int \<Rightarrow> int" where
  "fp_exp x0 =
     (let x = (if x0 > 8 * SCALE then 8 * SCALE else x0) in
      if x < - 8 * SCALE then 0
      else
        let neg = (x < 0);
            x = (if neg then - x else x);
            result = exp_loop [1..<16] x SCALE SCALE
        in if neg then (if result = 0 then 0 else (SCALE * SCALE) div result)
           else result)"

text \<open>
  The Newton loop of \<^verbatim>\<open>fp_sqrt\<close>, \<^verbatim>\<open>for _ in range(20)\<close>, by the number of rounds
  left. The division by \<open>guess\<close> is unguarded in the source.
\<close>

fun sqrt_loop :: "nat \<Rightarrow> int \<Rightarrow> int \<Rightarrow> py_error + int" where
  "sqrt_loop 0 x guess = Inr guess"
| "sqrt_loop (Suc n) x guess =
     (let prev = guess in
      bindE (py_floordiv (x * SCALE) guess) (\<lambda>dv.
        let guess' = (guess + dv) div 2;
            diff = \<bar>guess' - prev\<bar>
        in if diff < 2 then Inr guess' else sqrt_loop n x guess'))"

definition fp_sqrt :: "int \<Rightarrow> py_error + int" where
  "fp_sqrt x =
     (if x \<le> 0 then Inr 0
      else
        let guess = x div 2;
            guess = (if guess < SCALE then SCALE else guess)
        in sqrt_loop 20 x guess)"

definition fp_tanh :: "int \<Rightarrow> int" where
  "fp_tanh x =
     (if x > 4 * SCALE then SCALE
      else if x < - 4 * SCALE then - SCALE
      else
        let exp_2x = fp_exp (2 * x);
            num = exp_2x - SCALE;
            denom = exp_2x + SCALE
        in if denom = 0 then SCALE else (num * SCALE) div denom)"

definition fp_gelu :: "int \<Rightarrow> int" where
  "fp_gelu x =
     (let sqrt_2_pi = 7979;
          coeff = 447;
          x_sq = (x * x) div SCALE;
          x_cu = (x_sq * x) div SCALE;
          cubic_term = (coeff * x_cu) div SCALE;
          inner = x + cubic_term;
          inner = (sqrt_2_pi * inner) div SCALE;
          tanh_val = fp_tanh inner;
          half_term = (SCALE + tanh_val) div 2
      in (x * half_term) div SCALE)"

text \<open>
  \<^verbatim>\<open>fp_softmax\<close>: the first loop builds \<open>exps\<close> and their \<open>total\<close>, the second divides.
\<close>

definition softmax_exps :: "int list \<Rightarrow> int \<Rightarrow> int list" where
  "softmax_exps arr max_val = map (\<lambda>x. let shifted = x - max_val in fp_exp shifted) arr"

definition fp_softmax :: "int list \<Rightarrow> py_error + int list" where
  "fp_softmax arr =
     bindE (py_max arr) (\<lambda>max_val.
       let exps = softmax_exps arr max_val;
           total = sum_list exps
       in Inr (map (\<lambda>e. if total > 0 then (e * SCALE) div total
                         else SCALE div int (length arr)) exps))"

subsection \<open>Layer normalization\<close>

definition layer_norm :: "int list \<Rightarrow> int list \<Rightarrow> int list \<Rightarrow> py_error + int list" where
  "layer_norm inp gamma beta =
     (let n = int (length inp);
          eps = 100
      in bindE (py_floordiv (sum_list inp) n) (\<lambda>mean.
         let var_sum = sum_list (map (\<lambda>x. (x - mean) ^ 2 div SCALE) inp) in
         bindE (py_floordiv var_sum n) (\<lambda>variance.
         bindE (fp_sqrt (variance + eps)) (\<lambda>std.
         let std = (if std < 100 then 100 else std) in
         mapM (\<lambda>i.
                 bindE (py_index inp i) (\<lambda>x.
                 let normalized = ((x - mean) * SCALE) div std in
                 bindE (py_index gamma i) (\<lambda>g.
                 let scaled = (normalized * g) div SCALE in
                 bindE (py_index beta i) (\<lambda>b.
                 Inr (scaled + b)))))
              (range_py n)))))"

subsection \<open>Model configuration and weights\<close>

text \<open>
  \<^verbatim>\<open>config\<close> is a dict from names to integers, \<^verbatim>\<open>weights\<close> a dict from names to flat
  integer lists; the per-layer names are built by f-strings such as
  \<^verbatim>\<open>f"attn_w_{layer}"\<close>.
\<close>

type_synonym config = "string \<rightharpoonup> int"

type_synonym weights = "string \<rightharpoonup> int list"

definition layer_key :: "string \<Rightarrow> int \<Rightarrow> string" where
  "layer_key name layer = name @ py_str layer"

subsection \<open>Linear projections\<close>

text \<open>
  The four projections of the source (Q/K/V, attention output, FC1, FC2) are the same
  nested loop over an input row \<open>x\<close>:
  \<^verbatim>\<open>
  for i in range(n_out):
      s = b[i]
      for j in range(n_in):
          w_idx = j * n_out + i
          s += (x[j] * w[w_idx]) // SCALE
      row.append(s)
  \<close>
\<close>

definition dense :: "int list \<Rightarrow> int \<Rightarrow> int \<Rightarrow> int list \<Rightarrow> int list \<Rightarrow> py_error + int list" where
  "dense x n_in n_out w b =
     mapM (\<lambda>i.
             bindE (py_index b i) (\<lambda>s.
             foldM (\<lambda>s j.
                      let w_idx = j * n_out + i in
                      bindE (py_index x j) (\<lambda>xj.
                      bindE (py_index w w_idx) (\<lambda>wv.
                      Inr (s + (xj * wv) div SCALE))))
                   (range_py n_in) s))
          (range_py n_out)"

subsection \<open>Multi-head attention\<close>

text \<open>\<^verbatim>\<open>[[qkv[t][off + d] for d in range(head_dim)] for t in range(seq_len)]\<close>\<close>

definition head_slice :: "int list list \<Rightarrow> int \<Rightarrow> int \<Rightarrow> int \<Rightarrow> py_error + int list list" where
  "head_slice qkv off head_dim seq_len =
     mapM (\<lambda>t. mapM (\<lambda>d. bindE (py_index qkv t) (\<lambda>row. py_index row (off + d)))
                     (range_py head_dim))
          (range_py seq_len)"

text \<open>The score row of query position \<open>i\<close>: the sentinel for \<open>j > i\<close>, the scaled dot product otherwise.\<close>

definition attn_scores ::
  "int list list \<Rightarrow> int list list \<Rightarrow> int \<Rightarrow> int \<Rightarrow> int \<Rightarrow> int \<Rightarrow> py_error + int list" where
  "attn_scores Q K head_dim scale seq_len i =
     mapM (\<lambda>j.
             if j > i then Inr (- 1000000000)
             else
               bindE (mapM (\<lambda>d.
                              bindE (py_index Q i) (\<lambda>Qi.
                              bindE (py_index Qi d) (\<lambda>q.
                              bindE (py_index K j) (\<lambda>Kj.
                              bindE (py_index Kj d) (\<lambda>k.
                              Inr ((q * k) div SCALE))))))
                           (range_py head_dim)) (\<lambda>terms.
               let score = sum_list terms in
               py_floordiv (score * SCALE) scale))
          (range_py seq_len)"

text \<open>\<^verbatim>\<open>out_vec\<close>: the weighted sum of the value vectors.\<close>

definition attn_apply :: "int list \<Rightarrow> int list list \<Rightarrow> int \<Rightarrow> int \<Rightarrow> py_error + int list" where
  "attn_apply probs V head_dim seq_len =
     mapM (\<lambda>d.
             bindE (mapM (\<lambda>j.
                            bindE (py_index probs j) (\<lambda>p.
                            bindE (py_index V j) (\<lambda>Vj.
                            bindE (py_index Vj d) (\<lambda>v.
                            Inr ((p * v) div SCALE)))))
                         (range_py seq_len)) (\<lambda>terms.
             Inr (sum_list terms)))
          (range_py head_dim)"

text \<open>
  The body of \<^verbatim>\<open>for i in range(seq_len)\<close> inside a head: the score row, its softmax
  and \<^verbatim>\<open>out_vec\<close>. \<^verbatim>\<open>scores\<close> and \<^verbatim>\<open>probs\<close> are local variables of the source; the model
  returns them beside \<^verbatim>\<open>out_vec\<close>, so that what the function computes for them can be
  stated.
\<close>

definition attention_position ::
  "int list list \<Rightarrow> int list list \<Rightarrow> int list list \<Rightarrow> int \<Rightarrow> int \<Rightarrow> int \<Rightarrow> int \<Rightarrow>
   py_error + ((int list \<times> int list) \<times> int list)" where
  "attention_position Q K V head_dim scale seq_len i =
     bindE (attn_scores Q K head_dim scale seq_len i) (\<lambda>scores.
     bindE (fp_softmax scores) (\<lambda>probs.
     bindE (attn_apply probs V head_dim seq_len) (\<lambda>out_vec.
     Inr ((scores, probs), out_vec))))"

text \<open>
  The body of \<^verbatim>\<open>for h in range(n_head)\<close>: for every position the pair of \<^verbatim>\<open>scores\<close> and
  \<^verbatim>\<open>probs\<close>, and the \<^verbatim>\<open>out_vec\<close> appended to \<^verbatim>\<open>all_head_outputs[h]\<close>.
\<close>

definition attention_head ::
  "int list list \<Rightarrow> int \<Rightarrow> int \<Rightarrow> int \<Rightarrow> int \<Rightarrow> int \<Rightarrow>
   py_error + ((int list \<times> int list) \<times> int list) list" where
  "attention_head qkv n_embd head_dim scale seq_len h =
     (let head_offset = h * head_dim in
      bindE (head_slice qkv head_offset head_dim seq_len) (\<lambda>Q.
      bindE (head_slice qkv (n_embd + head_offset) head_dim seq_len) (\<lambda>K.
      bindE (head_slice qkv (2 * n_embd + head_offset) head_dim seq_len) (\<lambda>V.
      mapM (attention_position Q K V head_dim scale seq_len) (range_py seq_len)))))"

text \<open>The Q/K/V projection of every position.\<close>

definition qkv_proj :: "int list list \<Rightarrow> int \<Rightarrow> int list \<Rightarrow> int list \<Rightarrow> py_error + int list list" where
  "qkv_proj hidden n_embd attn_w attn_b =
     (let seq_len = int (length hidden);
          qkv_dim = 3 * n_embd
      in mapM (\<lambda>t. bindE (py_index hidden t) (\<lambda>x. dense x n_embd qkv_dim attn_w attn_b))
              (range_py seq_len))"

text \<open>
  \<^verbatim>\<open>multi_head_attention\<close>, run with its attention rows kept: the result is the pair of
  the rows (for every head and query position the \<^verbatim>\<open>scores\<close> and \<^verbatim>\<open>probs\<close> of that
  iteration) and the \<^verbatim>\<open>output\<close> that the source returns.
\<close>

definition multi_head_attention_trace ::
  "int list list \<Rightarrow> int \<Rightarrow> config \<Rightarrow> weights \<Rightarrow>
   py_error + ((int list \<times> int list) list list \<times> int list list)" where
  "multi_head_attention_trace hidden layer config weights =
     (let seq_len = int (length hidden) in
      bindE (dict_get config ''n_embd'') (\<lambda>n_embd.
      bindE (dict_get config ''n_head'') (\<lambda>n_head.
      bindE (dict_get config ''head_dim'') (\<lambda>head_dim.
      bindE (dict_get weights (layer_key ''attn_w_'' layer)) (\<lambda>attn_w.
      bindE (dict_get weights (layer_key ''attn_b_'' layer)) (\<lambda>attn_b.
      bindE (dict_get weights (layer_key ''attn_proj_w_'' layer)) (\<lambda>proj_w.
      bindE (dict_get weights (layer_key ''attn_proj_b_'' layer)) (\<lambda>proj_b.
      bindE (qkv_proj hidden n_embd attn_w attn_b) (\<lambda>qkv.
      bindE (fp_sqrt (head_dim * SCALE)) (\<lambda>scale.
      bindE (mapM (attention_head qkv n_embd head_dim scale seq_len) (range_py n_head))
        (\<lambda>heads.
      let all_head_outputs = map (map snd) heads in
      bindE (mapM (\<lambda>t.
                     bindE (mapM (\<lambda>h.
                                    bindE (py_index all_head_outputs h) (\<lambda>outs.
                                    py_index outs t))
                                 (range_py n_head)) (\<lambda>rows.
                     Inr (concat rows)))
                  (range_py seq_len)) (\<lambda>concat_rows.
      bindE (mapM (\<lambda>t. bindE (py_index concat_rows t) (\<lambda>x. dense x n_embd n_embd proj_w proj_b))
                  (range_py seq_len)) (\<lambda>output.
      Inr (map (map fst) heads, output))))))))))))))"

text \<open>\<^verbatim>\<open>multi_head_attention\<close> returns the \<^verbatim>\<open>output\<close> alone.\<close>

definition multi_head_attention ::
  "int list list \<Rightarrow> int \<Rightarrow> config \<Rightarrow> weights \<Rightarrow> py_error + int list list" where
  "multi_head_attention hidden layer config weights =
     bindE (multi_head_attention_trace hidden layer config weights) (\<lambda>(rows, output). Inr output)"

subsection \<open>Feed-forward network\<close>

definition feed_forward ::
  "int list list \<Rightarrow> int \<Rightarrow> config \<Rightarrow> weights \<Rightarrow> py_error + int list list" where
  "feed_forward hidden layer config weights =
     (let seq_len = int (length hidden) in
      bindE (dict_get config ''n_embd'') (\<lambda>n_embd.
      bindE (dict_get config ''hidden_dim'') (\<lambda>hidden_dim.
      bindE (dict_get weights (layer_key ''ffn_fc1_w_'' layer)) (\<lambda>fc1_w.
      bindE (dict_get weights (layer_key ''ffn_fc1_b_'' layer)) (\<lambda>fc1_b.
      bindE (dict_get weights (layer_key ''ffn_fc2_w_'' layer)) (\<lambda>fc2_w.
      bindE (dict_get weights (layer_key ''ffn_fc2_b_'' layer)) (\<lambda>fc2_b.
      mapM (\<lambda>t.
              bindE (py_index hidden t) (\<lambda>x.
              bindE (dense x n_embd hidden_dim fc1_w fc1_b) (\<lambda>pre.
              let intermediate = map fp_gelu pre in
              dense intermediate hidden_dim n_embd fc2_w fc2_b)))
           (range_py seq_len))))))))"

subsection \<open>Transformer block\<close>

text \<open>\<^verbatim>\<open>[[a[t][i] + b[t][i] for i in range(len(a[t]))] for t in range(seq_len)]\<close>\<close>

definition residual :: "int list list \<Rightarrow> int list list \<Rightarrow> int \<Rightarrow> py_error + int list list" where
  "residual a b seq_len =
     mapM (\<lambda>t.
             bindE (py_index a t) (\<lambda>at.
             mapM (\<lambda>i.
                     bindE (py_index at i) (\<lambda>x.
                     bindE (py_index b t) (\<lambda>bt.
                     bindE (py_index bt i) (\<lambda>y.
                     Inr (x + y)))))
                  (range_py (int (length at)))))
          (range_py seq_len)"

definition transformer_block ::
  "int list list \<Rightarrow> int \<Rightarrow> config \<Rightarrow> weights \<Rightarrow> py_error + int list list" where
  "transformer_block hidden layer config weights =
     (let seq_len = int (length hidden) in
      bindE (dict_get weights (layer_key ''ln1_w_'' layer)) (\<lambda>ln1_w.
      bindE (dict_get weights (layer_key ''ln1_b_'' layer)) (\<lambda>ln1_b.
      bindE (dict_get weights (layer_key ''ln2_w_'' layer)) (\<lambda>ln2_w.
      bindE (dict_get weights (layer_key ''ln2_b_'' layer)) (\<lambda>ln2_b.
      bindE (mapM (\<lambda>t. bindE (py_index hidden t) (\<lambda>x. layer_norm x ln1_w ln1_b))
                  (range_py seq_len)) (\<lambda>normed1.
      bindE (multi_head_attention normed1 layer config weights) (\<lambda>attn_out.
      bindE (residual hidden attn_out seq_len) (\<lambda>residual1.
      bindE (mapM (\<lambda>t. bindE (py_index residual1 t) (\<lambda>x. layer_norm x ln2_w ln2_b))
                  (range_py seq_len)) (\<lambda>normed2.
      bindE (feed_forward normed2 layer config weights) (\<lambda>ffn_out.
      residual residual1 ffn_out seq_len))))))))))"

subsection \<open>Forward pass\<close>

text \<open>Token + position embeddings: \<^verbatim>\<open>for t, tok in enumerate(tokens)\<close>.\<close>

definition embed_row :: "int list \<Rightarrow> int list \<Rightarrow> int \<Rightarrow> int \<Rightarrow> int \<Rightarrow> py_error + int list" where
  "embed_row wte wpe n_embd t tok =
     (let tok_start = tok * n_embd;
          pos_start = t * n_embd
      in mapM (\<lambda>i.
                 bindE (py_index wte (tok_start + i)) (\<lambda>a.
                 bindE (py_index wpe (pos_start + i)) (\<lambda>b.
                 Inr (a + b))))
              (range_py n_embd))"

definition embed_tokens :: "int list \<Rightarrow> int list \<Rightarrow> int \<Rightarrow> int list \<Rightarrow> py_error + int list list" where
  "embed_tokens wte wpe n_embd tokens =
     mapM (\<lambda>(t, tok). embed_row wte wpe n_embd t tok)
          (zip (range_py (int (length tokens))) tokens)"

text \<open>\<^verbatim>\<open>for layer in range(n_layer): hidden = transformer_block(hidden, layer, config, weights)\<close>\<close>

definition run_blocks :: "int list list \<Rightarrow> int \<Rightarrow> config \<Rightarrow> weights \<Rightarrow> py_error + int list list" where
  "run_blocks hidden n_layer config weights =
     foldM (\<lambda>hidden layer. transformer_block hidden layer config weights)
           (range_py n_layer) hidden"

text \<open>The vocabulary projection: one logit per \<open>v\<close> in \<^verbatim>\<open>range(vocab_size)\<close>.\<close>

definition project :: "int list \<Rightarrow> int list \<Rightarrow> int \<Rightarrow> int \<Rightarrow> py_error + int list" where
  "project last_hidden wte n_embd vocab_size =
     mapM (\<lambda>v.
             let emb_start = v * n_embd in
             bindE (mapM (\<lambda>i.
                            bindE (py_index last_hidden i) (\<lambda>a.
                            bindE (py_index wte (emb_start + i)) (\<lambda>b.
                            Inr ((a * b) div SCALE))))
                         (range_py n_embd)) (\<lambda>terms.
             Inr (sum_list terms)))
          (range_py vocab_size)"

text \<open>The truncation at the head of \<^verbatim>\<open>forward\<close>.\<close>

definition truncate :: "int list \<Rightarrow> int \<Rightarrow> int list" where
  "truncate tokens block_size =
     (let seq_len = int (length tokens) in
      if seq_len > block_size then
        let seq_len = block_size in py_slice_to tokens seq_len
      else tokens)"

text \<open>
  \<^verbatim>\<open>forward\<close> after its truncation (from \<^verbatim>\<open>n_embd = config["n_embd"]\<close> to the end), on the
  tokens that the truncation kept.
\<close>

definition forward_from :: "int list \<Rightarrow> config \<Rightarrow> weights \<Rightarrow> py_error + int list" where
  "forward_from tokens config weights =
     bindE (dict_get config ''n_embd'') (\<lambda>n_embd.
     bindE (dict_get config ''vocab_size'') (\<lambda>vocab_size.
     bindE (dict_get config ''n_layer'') (\<lambda>n_layer.
     bindE (dict_get weights ''wte'') (\<lambda>wte.
     bindE (dict_get weights ''wpe'') (\<lambda>wpe.
     bindE (dict_get weights ''ln_f_w'') (\<lambda>ln_f_w.
     bindE (dict_get weights ''ln_f_b'') (\<lambda>ln_f_b.
     bindE (embed_tokens wte wpe n_embd tokens) (\<lambda>hidden.
     bindE (run_blocks hidden n_layer config weights) (\<lambda>hidden.
     bindE (py_index hidden (- 1)) (\<lambda>last.
     bindE (layer_norm last ln_f_w ln_f_b) (\<lambda>last_hidden.
     project last_hidden wte n_embd vocab_size)))))))))))"

definition forward :: "int list \<Rightarrow> config \<Rightarrow> weights \<Rightarrow> py_error + int list" where
  "forward tokens config weights =
     bindE (dict_get config ''block_size'') (\<lambda>block_size.
     let tokens = truncate tokens block_size in
     forward_from tokens config weights)"

subsection \<open>Well-shaped models\<close>

text \<open>
  The shapes that the weight files of a model have (\<^verbatim>\<open>train_model.py\<close> writes them,
  \<^verbatim>\<open>load_model\<close> reads them): the hypotheses under which the forward pass is shown to
  succeed. \<open>shaped rows cols M\<close> says that \<open>M\<close> is a list of \<open>rows\<close> lists of length \<open>cols\<close>;
  \<open>has_len weights name n\<close> that the tensor \<open>name\<close> is present with \<open>n\<close> entries.
  \<^verbatim>\<open>load_config\<close> sets \<open>head_dim = n_embd // n_head\<close> and \<open>hidden_dim = 4 * n_embd\<close>.
\<close>

definition shaped :: "int \<Rightarrow> int \<Rightarrow> int list list \<Rightarrow> bool" where
  "shaped rows cols M \<longleftrightarrow> int (length M) = rows \<and> (\<forall>r\<in>set M. int (length r) = cols)"

definition has_len :: "weights \<Rightarrow> string \<Rightarrow> int \<Rightarrow> bool" where
  "has_len weights name n = (case weights name of None \<Rightarrow> False | Some ws \<Rightarrow> int (length ws) = n)"

definition valid_layer :: "weights \<Rightarrow> int \<Rightarrow> int \<Rightarrow> int \<Rightarrow> bool" where
  "valid_layer weights E F layer \<longleftrightarrow>
     has_len weights (layer_key ''ln1_w_'' layer) E
   \<and> has_len weights (layer_key ''ln1_b_'' layer) E
   \<and> has_len weights (layer_key ''attn_w_'' layer) (E * (3 * E))
   \<and> has_len weights (layer_key ''attn_b_'' layer) (3 * E)
   \<and> has_len weights (layer_key ''attn_proj_w_'' layer) (E * E)
   \<and> has_len weights (layer_key ''attn_proj_b_'' layer) E
   \<and> has_len weights (layer_key ''ln2_w_'' layer) E
   \<and> has_len weights (layer_key ''ln2_b_'' layer) E
   \<and> has_len weights (layer_key ''ffn_fc1_w_'' layer) (E * F)
   \<and> has_len weights (layer_key ''ffn_fc1_b_'' layer) F
   \<and> has_len weights (layer_key ''ffn_fc2_w_'' layer) (F * E)
   \<and> has_len weights (layer_key ''ffn_fc2_b_'' layer) E"

definition valid_model :: "int \<Rightarrow> int \<Rightarrow> int \<Rightarrow> int \<Rightarrow> int \<Rightarrow> config \<Rightarrow> weights \<Rightarrow> bool" where
  "valid_model E H L V W config weights \<longleftrightarrow>
     0 < E \<and> 0 < H \<and> 0 \<le> L \<and> 0 < V \<and> 0 < W \<and> H * (E div H) = E
   \<and> config ''n_embd'' = Some E \<and> config ''n_head'' = Some H \<and> config ''n_layer'' = Some L
   \<and> config ''vocab_size'' = Some V \<and> config ''block_size'' = Some W
   \<and> config ''head_dim'' = Some (E div H) \<and> config ''hidden_dim'' = Some (4 * E)
   \<and> has_len weights ''wte'' (V * E) \<and> has_len weights ''wpe'' (W * E)
   \<and> has_len weights ''ln_f_w'' E \<and> has_len weights ''ln_f_b'' E
   \<and> (\<forall>layer\<in>set (range_py L). valid_layer weights E (4 * E) layer)"

subsection \<open>The wrapped token id\<close>

text \<open>
  Not a function of the source: the replacement of a negative token id \<open>tok\<close> by
  \<open>tok + vocab_size\<close>, which the statement about negative ids compares with.
\<close>

definition wrap_token :: "int \<Rightarrow> int \<Rightarrow> int" where
  "wrap_token V tok = (if tok < 0 then tok + V else tok)"

subsection \<open>Concrete models\<close>

text \<open>
  A small well-shaped model (\<open>n_embd = 2\<close>, one head, one layer, three vocabulary
  entries, a context window of two), as \<^verbatim>\<open>load_model\<close> would return it.
\<close>

definition small_config :: config where
  "small_config = map_of [(''n_embd'', 2), (''n_head'', 1), (''n_layer'', 1), (''vocab_size'', 3),
     (''block_size'', 2), (''head_dim'', 2), (''hidden_dim'', 8)]"

definition small_weights :: weights where
  "small_weights = map_of [
     (''wte'', [1000, -2000, 3000, 500, -700, 900]),
     (''wpe'', [100, 200, -300, 400]),
     (''ln_f_w'', [10000, 9000]),
     (''ln_f_b'', [0, 100]),
     (''ln1_w_0'', [10000, 10000]),
     (''ln1_b_0'', [0, 0]),
     (''attn_w_0'', [1000, 2000, -1000, 500, 300, 200, -400, 800, 600, -900, 100, 700]),
     (''attn_b_0'', [10, -20, 30, 0, 5, -5]),
     (''attn_proj_w_0'', [5000, -3000, 2000, 1000]),
     (''attn_proj_b_0'', [1, 2]),
     (''ln2_w_0'', [10000, 10000]),
     (''ln2_b_0'', [0, 0]),
     (''ffn_fc1_w_0'', [100, 200, 300, 400, 500, 600, 700, 800, -100, -200, -300, -400, -500, -600, -700, -800]),
     (''ffn_fc1_b_0'', [1, 2, 3, 4, 5, 6, 7, 8]),
     (''ffn_fc2_w_0'', [100, 200, 300, 400, 500, 600, 700, 800, -100, -200, -300, -400, -500, -600, -700, -800]),
     (''ffn_fc2_b_0'', [0, 0])]"

text \<open>
  A one-dimensional model whose attention biases are large: the query and key of every
  position are \<open>10^7\<close> and \<open>-10^7\<close>, so every real score is \<open>-10^10\<close>; the value of a
  position is its input plus \<open>SCALE\<close>.
\<close>

definition extreme_config :: config where
  "extreme_config = map_of [(''n_embd'', 1), (''n_head'', 1), (''n_layer'', 1), (''vocab_size'', 2),
     (''block_size'', 2), (''head_dim'', 1), (''hidden_dim'', 4)]"

definition extreme_weights :: weights where
  "extreme_weights = map_of [
     (''attn_w_0'', [0, 0, 10000]),
     (''attn_b_0'', [10000000, - 10000000, 10000]),
     (''attn_proj_w_0'', [10000]),
     (''attn_proj_b_0'', [0])]"

section \<open>Properties\<close>

subsection \<open>Sequencing\<close>

lemma bindE_simps [simp]:
  "bindE (Inl e) f = Inl e"
  "bindE (Inr x) f = f x"
  by (simp_all add: bindE_def)

lemma bindE_eq_Inr: "bindE m f = Inr y \<longleftrightarrow> (\<exists>x. m = Inr x \<and> f x = Inr y)"
  by (cases m) simp_all

lemma mapM_map: "mapM f (map h xs) = mapM (\<lambda>x. f (h x)) xs"
  by (induction xs) simp_all

lemma mapM_Inr_map: "(\<And>x. x \<in> set xs \<Longrightarrow> f x = Inr (g x)) \<Longrightarrow> mapM f xs = Inr (map g xs)"
  by (induction xs) simp_all

lemma mapM_cong: "(\<And>x. x \<in> set xs \<Longrightarrow> f x = g x) \<Longrightarrow> mapM f xs = mapM g xs"
  by (induction xs) simp_all

lemma mapM_Inr_iff: "mapM f xs = Inr ys \<longleftrightarrow> list_all2 (\<lambda>x y. f x = Inr y) xs ys"
proof (induction xs arbitrary: ys)
  case Nil
  then show ?case by auto
next
  case (Cons x xs)
  show ?case
    by (cases ys) (auto simp: bindE_eq_Inr Cons.IH)
qed

lemma mapM_Inr_length: "mapM f xs = Inr ys \<Longrightarrow> length ys = length xs"
  by (simp add: mapM_Inr_iff list_all2_lengthD)

lemma mapM_Inr_nth: "mapM f xs = Inr ys \<Longrightarrow> k < length xs \<Longrightarrow> f (xs ! k) = Inr (ys ! k)"
  unfolding mapM_Inr_iff by (erule list_all2_nthD)

lemma range_py_int [simp]: "range_py (int k) = map int [0..<k]"
  by (simp add: range_py_def)

lemma length_range_py [simp]: "length (range_py n) = nat n"
  by (simp add: range_py_def)

lemma set_range_py: "set (range_py n) = {i. 0 \<le> i \<and> i < n}"
proof -
  have "i \<in> int ` {0..<nat n} \<longleftrightarrow> 0 \<le> i \<and> i < n" for i
  proof
    assume "i \<in> int ` {0..<nat n}"
    then show "0 \<le> i \<and> i < n" by auto
  next
    assume "0 \<le> i \<and> i < n"
    then have "i = int (nat i)" "nat i \<in> {0..<nat n}" by auto
    then show "i \<in> int ` {0..<nat n}" by (rule image_eqI)
  qed
  then show ?thesis
    by (auto simp: range_py_def)
qed

lemma nth_range_py: "k < nat n \<Longrightarrow> range_py n ! k = int k"
  by (simp add: range_py_def)

lemma py_index_nat: "py_index xs (int k) = (if k < length xs then Inr (xs ! k) else Inl IndexError)"
  by (simp add: py_index_def)

lemma py_index_nonneg: "0 \<le> i \<Longrightarrow> i < int (length xs) \<Longrightarrow> py_index xs i = Inr (xs ! nat i)"
  by (simp add: py_index_def)

lemma py_index_Inr_nonneg: "py_index xs i = Inr y \<Longrightarrow> 0 \<le> i \<Longrightarrow> nat i < length xs \<and> y = xs ! nat i"
  by (auto simp: py_index_def split: if_splits)

lemma py_index_error: "py_index xs i = Inl e \<Longrightarrow> e = IndexError"
  by (auto simp: py_index_def Let_def split: if_splits)

lemma mapM_Inr_eq_map:
  assumes "mapM f xs = Inr ys" and "\<And>x y. x \<in> set xs \<Longrightarrow> f x = Inr y \<Longrightarrow> y = g x"
  shows "ys = map g xs"
proof (rule nth_equalityI)
  show "length ys = length (map g xs)"
    using assms(1) by (simp add: mapM_Inr_length)
next
  fix k assume "k < length ys"
  then have k: "k < length xs"
    using assms(1) by (simp add: mapM_Inr_length)
  then have "f (xs ! k) = Inr (ys ! k)"
    using assms(1) by (simp add: mapM_Inr_nth)
  with k have "ys ! k = g (xs ! k)"
    by (intro assms(2)) simp_all
  with k show "ys ! k = map g xs ! k" by simp
qed

lemma mapM_Inl_IndexError:
  assumes "\<And>x e. x \<in> set xs \<Longrightarrow> f x = Inl e \<Longrightarrow> e = IndexError"
    and "\<exists>x\<in>set xs. f x = Inl IndexError"
  shows "mapM f xs = Inl IndexError"
  using assms
proof (induction xs)
  case Nil
  then show ?case by simp
next
  case (Cons x xs)
  show ?case
  proof (cases "f x")
    case (Inl e)
    with Cons.prems(1) [of x e] show ?thesis by simp
  next
    case (Inr y)
    with Cons.prems(2) have "\<exists>x\<in>set xs. f x = Inl IndexError" by auto
    then have "mapM f xs = Inl IndexError"
      using Cons.prems(1) by (intro Cons.IH) auto
    with Inr show ?thesis by simp
  qed
qed

lemma mapM_Inl_member: "mapM f xs = Inl e \<Longrightarrow> \<exists>x\<in>set xs. f x = Inl e"
proof (induction xs)
  case Nil
  then show ?case by simp
next
  case (Cons x xs)
  then show ?case
    by (cases "f x"; cases "mapM f xs") auto
qed

lemma dict_get_Inr: "dict_get d k = Inr v \<longleftrightarrow> d k = Some v"
  by (simp add: dict_get_def split: option.splits)

lemma dict_get_Some: "d k = Some v \<Longrightarrow> dict_get d k = Inr v"
  by (simp add: dict_get_def)

lemma py_index_last: "py_index xs (- 1) = Inr y \<Longrightarrow> xs \<noteq> [] \<and> y = last xs"
proof -
  assume a: "py_index xs (- 1) = Inr y"
  then have ne: "xs \<noteq> []"
    by (auto simp: py_index_def)
  then have "nat (int (length xs) - 1) = length xs - 1"
    by (cases xs) simp_all
  with a ne show ?thesis
    by (auto simp: py_index_def last_conv_nth split: if_splits)
qed

subsection \<open>The exponential\<close>

lemma exp_term_nonneg: "0 \<le> t \<Longrightarrow> 0 \<le> x \<Longrightarrow> 0 \<le> (t * x) div (int i * SCALE)"
  by (simp add: div_int_pos_iff SCALE_def)

lemma exp_term_mono:
  assumes "0 \<le> t1" "t1 \<le> t2" "0 \<le> x" "x \<le> y"
  shows "(t1 * x) div (int i * SCALE) \<le> (t2 * y) div (int i * SCALE)"
proof (cases "i = 0")
  case True
  then show ?thesis by simp
next
  case False
  have "t1 * x \<le> t2 * y"
    using assms by (intro mult_mono) auto
  moreover have "0 < int i * SCALE"
    using False by (simp add: SCALE_def)
  ultimately show ?thesis
    by (rule zdiv_mono1)
qed

lemma exp_loop_ge: "0 \<le> x \<Longrightarrow> 0 \<le> t \<Longrightarrow> r \<le> exp_loop is x t r"
proof (induction "is" arbitrary: t r)
  case Nil
  then show ?case by simp
next
  case (Cons i "is")
  let ?t = "(t * x) div (int i * SCALE)"
  have t': "0 \<le> ?t"
    using Cons.prems by (intro exp_term_nonneg) auto
  have "r + ?t \<le> exp_loop is x ?t (r + ?t)"
    using Cons.IH [OF Cons.prems(1) t'] .
  with t' show ?case
    by (simp add: Let_def)
qed

lemma exp_loop_mono:
  "0 \<le> x \<Longrightarrow> x \<le> y \<Longrightarrow> 0 \<le> t1 \<Longrightarrow> t1 \<le> t2 \<Longrightarrow> r1 \<le> r2 \<Longrightarrow>
   exp_loop is x t1 r1 \<le> exp_loop is y t2 r2"
proof (induction "is" arbitrary: t1 t2 r1 r2)
  case Nil
  then show ?case by simp
next
  case (Cons i "is")
  let ?a = "(t1 * x) div (int i * SCALE)"
  let ?b = "(t2 * y) div (int i * SCALE)"
  have a0: "0 \<le> ?a"
    using Cons.prems by (intro exp_term_nonneg) auto
  have ab: "?a \<le> ?b"
    using Cons.prems by (intro exp_term_mono) auto
  have y0: "0 \<le> y" and b0: "0 \<le> ?b"
    using Cons.prems a0 ab by auto
  have r: "r1 + ?a \<le> r2 + ?b"
    using Cons.prems ab by simp
  show ?case
  proof (cases "?b < 1")
    case True
    with ab have "?a < 1" by simp
    with True r show ?thesis by (simp add: Let_def)
  next
    case False
    note nb = this
    show ?thesis
    proof (cases "?a < 1")
      case True
      have "r2 + ?b \<le> exp_loop is y ?b (r2 + ?b)"
        using y0 b0 by (rule exp_loop_ge)
      with True nb r show ?thesis by (simp add: Let_def)
    next
      case False
      have "exp_loop is x ?a (r1 + ?a) \<le> exp_loop is y ?b (r2 + ?b)"
        using Cons.prems(1,2) a0 ab r by (rule Cons.IH)
      with False nb show ?thesis by (simp add: Let_def)
    qed
  qed
qed

lemma exp_series_ge: "0 \<le> x \<Longrightarrow> SCALE \<le> exp_loop [1..<16] x SCALE SCALE"
  by (rule exp_loop_ge) (simp_all add: SCALE_def)

lemma exp_series_mono: "0 \<le> x \<Longrightarrow> x \<le> y \<Longrightarrow> exp_loop [1..<16] x SCALE SCALE \<le> exp_loop [1..<16] y SCALE SCALE"
  by (rule exp_loop_mono) (simp_all add: SCALE_def)

lemma fp_exp_nonneg_arg: "0 \<le> x \<Longrightarrow> fp_exp x = exp_loop [1..<16] (min x (8 * SCALE)) SCALE SCALE"
  by (simp add: fp_exp_def Let_def SCALE_def min_def)

lemma fp_exp_neg_arg:
  assumes "- 8 * SCALE \<le> x" "x < 0"
  shows "fp_exp x = (SCALE * SCALE) div exp_loop [1..<16] (- x) SCALE SCALE"
proof -
  have "SCALE \<le> exp_loop [1..<16] (- x) SCALE SCALE"
    using assms by (intro exp_series_ge) simp
  then have "exp_loop [1..<16] (- x) SCALE SCALE \<noteq> 0"
    by (simp add: SCALE_def)
  with assms show ?thesis
    by (simp add: fp_exp_def Let_def SCALE_def)
qed

lemma fp_exp_below: "x < - 8 * SCALE \<Longrightarrow> fp_exp x = 0"
  by (simp add: fp_exp_def Let_def SCALE_def)

lemma fp_exp_nonneg: "0 \<le> fp_exp x"
proof -
  consider "x < - 8 * SCALE" | "- 8 * SCALE \<le> x" "x < 0" | "0 \<le> x" by linarith
  then show ?thesis
  proof cases
    case 1
    then show ?thesis by (simp add: fp_exp_below)
  next
    case 2
    have "SCALE \<le> exp_loop [1..<16] (- x) SCALE SCALE"
      using 2 by (intro exp_series_ge) simp
    then have "0 < exp_loop [1..<16] (- x) SCALE SCALE"
      by (simp add: SCALE_def)
    then show ?thesis
      using 2 by (simp add: fp_exp_neg_arg pos_imp_zdiv_nonneg_iff SCALE_def)
  next
    case 3
    have "SCALE \<le> exp_loop [1..<16] (min x (8 * SCALE)) SCALE SCALE"
      by (rule exp_series_ge) (use 3 in \<open>simp add: SCALE_def\<close>)
    with 3 show ?thesis by (simp add: fp_exp_nonneg_arg SCALE_def)
  qed
qed

lemma fp_exp_zero: "fp_exp 0 = SCALE"
  by (simp add: fp_exp_def Let_def SCALE_def upt_rec)

lemma fp_exp_neg_le_SCALE:
  assumes "x < 0"
  shows "fp_exp x \<le> SCALE"
proof (cases "x < - 8 * SCALE")
  case True
  then show ?thesis by (simp add: fp_exp_below SCALE_def)
next
  case False
  then have lo: "- 8 * SCALE \<le> x" by simp
  let ?r = "exp_loop [1..<16] (- x) SCALE SCALE"
  have r: "SCALE \<le> ?r"
    using assms by (intro exp_series_ge) simp
  have "(SCALE * SCALE) div ?r \<le> (SCALE * SCALE) div SCALE"
    using r by (intro zdiv_mono2) (simp_all add: SCALE_def)
  then show ?thesis
    using lo assms by (simp add: fp_exp_neg_arg SCALE_def)
qed

text \<open>
  Claim C7, as stated (\<open>fp_exp x = 0\<close> for every \<open>x \<le> -8 * SCALE\<close>), fails at the closed
  bound: the guard of the source is the strict \<^verbatim>\<open>x < -8 * SCALE\<close>, so \<open>-80000\<close> runs the
  series and the reciprocal and returns 3.
\<close>

theorem fp_exp_closed_bound_counterexample:
  "(- 80000 :: int) \<le> - 8 * SCALE \<and> fp_exp (- 80000) = 3"
  by (simp add: fp_exp_def Let_def SCALE_def upt_rec)

text \<open>
  Claim C7, amended: the fixed-point exponential returns exactly 0 for every input
  strictly below \<open>-8 * SCALE\<close> (the lower clamp bound itself is not included).
\<close>

theorem fp_exp_below_lower_bound:
  assumes "x < - 8 * SCALE"
  shows "fp_exp x = 0"
  using assms by (rule fp_exp_below)

theorem fp_exp_below_lower_bound_witness:
  "(- 80001 :: int) < - 8 * SCALE \<and> fp_exp (- 80001) = 0"
proof -
  have h: "(- 80001 :: int) < - 8 * SCALE"
    by (simp add: SCALE_def)
  from fp_exp_below_lower_bound [OF h] h show ?thesis by simp
qed

text \<open>
  Claim C8: the fixed-point exponential is monotonically non-decreasing over all
  integers: across the lower clamp (result 0), the reciprocal branch for negative
  inputs, the series with its early exit, and the upper clamp.
\<close>

theorem fp_exp_mono:
  assumes "x \<le> y"
  shows "fp_exp x \<le> fp_exp y"
proof -
  consider "x < - 8 * SCALE" | "- 8 * SCALE \<le> x" "y < 0" | "- 8 * SCALE \<le> x" "x < 0" "0 \<le> y" | "0 \<le> x"
    by linarith
  then show ?thesis
  proof cases
    case 1
    then show ?thesis by (simp add: fp_exp_below fp_exp_nonneg)
  next
    case 2
    let ?rx = "exp_loop [1..<16] (- x) SCALE SCALE"
    let ?ry = "exp_loop [1..<16] (- y) SCALE SCALE"
    have "?ry \<le> ?rx"
      using assms 2 by (intro exp_series_mono) simp_all
    moreover have "SCALE \<le> ?ry"
      using 2 by (intro exp_series_ge) simp
    then have "0 < ?ry" by (simp add: SCALE_def)
    ultimately have "(SCALE * SCALE) div ?rx \<le> (SCALE * SCALE) div ?ry"
      by (intro zdiv_mono2) (simp_all add: SCALE_def)
    then show ?thesis
      using assms 2 by (simp add: fp_exp_neg_arg)
  next
    case 3
    have "fp_exp x \<le> SCALE"
      using 3 by (intro fp_exp_neg_le_SCALE)
    also have "SCALE \<le> exp_loop [1..<16] (min y (8 * SCALE)) SCALE SCALE"
      by (rule exp_series_ge) (use 3 in \<open>simp add: SCALE_def\<close>)
    finally show ?thesis using 3 by (simp add: fp_exp_nonneg_arg)
  next
    case 4
    then have y: "0 \<le> y" using assms by simp
    have "exp_loop [1..<16] (min x (8 * SCALE)) SCALE SCALE \<le> exp_loop [1..<16] (min y (8 * SCALE)) SCALE SCALE"
      by (rule exp_series_mono) (use 4 assms in \<open>simp_all add: SCALE_def\<close>)
    then show ?thesis using 4 y by (simp add: fp_exp_nonneg_arg)
  qed
qed


theorem fp_exp_mono_witness:
  "(- 80001 :: int) \<le> - 1 \<and> fp_exp (- 80001) \<le> fp_exp (- 1)"
proof -
  have h: "(- 80001 :: int) \<le> - 1" by simp
  from fp_exp_mono [OF h] h show ?thesis by simp
qed

subsection \<open>Softmax\<close>

lemma py_max_Cons: "arr \<noteq> [] \<Longrightarrow> py_max arr = Inr (Max (set arr))"
  by (cases arr) (simp_all add: Max.set_eq_fold del: set_simps)

lemma sum_list_ge_member:
  fixes es :: "int list"
  shows "\<forall>e\<in>set es. 0 \<le> e \<Longrightarrow> x \<in> set es \<Longrightarrow> x \<le> sum_list es"
proof (induction es)
  case Nil
  then show ?case by simp
next
  case (Cons e es)
  have "0 \<le> sum_list es"
    using Cons.prems(1) by (intro sum_list_nonneg) simp
  with Cons show ?case by auto
qed

lemma softmax_exps_nonneg: "\<forall>e\<in>set (softmax_exps arr m). 0 \<le> e"
  by (simp add: softmax_exps_def fp_exp_nonneg)

lemma softmax_total_pos:
  assumes "arr \<noteq> []"
  shows "SCALE \<le> sum_list (softmax_exps arr (Max (set arr)))"
proof -
  have "Max (set arr) \<in> set arr"
    using assms by (intro Max_in) simp_all
  then have "fp_exp (Max (set arr) - Max (set arr)) \<in> set (softmax_exps arr (Max (set arr)))"
    unfolding softmax_exps_def Let_def set_map by (rule imageI)
  then have "SCALE \<in> set (softmax_exps arr (Max (set arr)))"
    by (simp add: fp_exp_zero)
  with softmax_exps_nonneg show ?thesis
    by (rule sum_list_ge_member)
qed

lemma fp_softmax_nonempty:
  assumes "arr \<noteq> []"
  shows "fp_softmax arr =
     Inr (map (\<lambda>e. (e * SCALE) div sum_list (softmax_exps arr (Max (set arr))))
              (softmax_exps arr (Max (set arr))))"
proof -
  have "0 < sum_list (softmax_exps arr (Max (set arr)))"
    using softmax_total_pos [OF assms] by (simp add: SCALE_def)
  then show ?thesis
    using assms by (simp add: fp_softmax_def py_max_Cons Let_def)
qed

lemma floor_shares_bounds:
  fixes es :: "int list"
  assumes "0 < T"
  shows "T * sum_list (map (\<lambda>e. (e * S) div T) es) \<le> S * sum_list es
       \<and> S * sum_list es - int (length es) * (T - 1) \<le> T * sum_list (map (\<lambda>e. (e * S) div T) es)"
proof (induction es)
  case Nil
  then show ?case by simp
next
  case (Cons e es)
  define q where "q = (e * S) div T"
  define r where "r = (e * S) mod T"
  define Q where "Q = sum_list (map (\<lambda>e. (e * S) div T) es)"
  have eq: "T * q + r = e * S"
    unfolding q_def r_def by (rule mult_div_mod_eq)
  have r: "0 \<le> r" "r \<le> T - 1"
    unfolding r_def using assms pos_mod_bound [of T "e * S"] by simp_all
  have a: "T * sum_list (map (\<lambda>e. (e * S) div T) (e # es)) = T * q + T * Q"
    by (simp add: q_def Q_def distrib_left)
  have b: "S * sum_list (e # es) = e * S + S * sum_list es"
    by (simp add: algebra_simps)
  have c: "int (length (e # es)) * (T - 1) = (T - 1) + int (length es) * (T - 1)"
    by (simp add: algebra_simps)
  from Cons.IH have ih: "T * Q \<le> S * sum_list es"
    "S * sum_list es - int (length es) * (T - 1) \<le> T * Q"
    by (simp_all add: Q_def)
  show ?case
    unfolding a b c using eq r ih by linarith
qed

lemma fp_softmax_sum_bounds:
  assumes "arr \<noteq> []" and "fp_softmax arr = Inr out"
  shows "SCALE - int (length arr) < sum_list out" and "sum_list out \<le> SCALE"
proof -
  let ?es = "softmax_exps arr (Max (set arr))"
  let ?T = "sum_list ?es"
  have T: "0 < ?T"
    using softmax_total_pos [OF assms(1)] by (simp add: SCALE_def)
  have out: "out = map (\<lambda>e. (e * SCALE) div ?T) ?es"
    using assms by (simp add: fp_softmax_nonempty)
  have len: "length ?es = length arr"
    by (simp add: softmax_exps_def)
  from floor_shares_bounds [OF T, of SCALE ?es]
  have up: "?T * sum_list out \<le> SCALE * ?T"
    and lo: "SCALE * ?T - int (length arr) * (?T - 1) \<le> ?T * sum_list out"
    by (simp_all add: out len)
  from up T show "sum_list out \<le> SCALE"
    by (simp add: mult.commute)
  have n: "1 \<le> int (length arr)"
    using assms(1) by (cases arr) simp_all
  have "int (length arr) * (?T - 1) = int (length arr) * ?T - int (length arr)"
    by (simp add: algebra_simps)
  with lo n have "SCALE * ?T - int (length arr) * ?T < ?T * sum_list out"
    by linarith
  then have "(SCALE - int (length arr)) * ?T < sum_list out * ?T"
    by (simp add: algebra_simps)
  with T show "SCALE - int (length arr) < sum_list out"
    by (simp add: mult_less_cancel_right)
qed

lemma fp_softmax_out_nonneg:
  assumes "arr \<noteq> []" and "fp_softmax arr = Inr out"
  shows "\<forall>p\<in>set out. 0 \<le> p"
proof -
  let ?es = "softmax_exps arr (Max (set arr))"
  have T: "0 < sum_list ?es"
    using softmax_total_pos [OF assms(1)] by (simp add: SCALE_def)
  have out: "out = map (\<lambda>e. (e * SCALE) div sum_list ?es) ?es"
    using assms by (simp add: fp_softmax_nonempty)
  show ?thesis
    unfolding out using T softmax_exps_nonneg [of arr "Max (set arr)"]
    by (auto simp: pos_imp_zdiv_nonneg_iff SCALE_def)
qed


text \<open>
  Claim C6: for every non-empty list of scores, fixed-point softmax returns a list
  whose entries are all non-negative and whose sum is within plus or minus the list
  length of \<open>SCALE\<close> (in fact in \<open>(SCALE - length, SCALE]\<close>).
\<close>

theorem fp_softmax_nonneg_sum:
  assumes "arr \<noteq> []"
  shows "\<exists>out. fp_softmax arr = Inr out
           \<and> (\<forall>p\<in>set out. 0 \<le> p)
           \<and> \<bar>sum_list out - SCALE\<bar> \<le> int (length arr)"
proof -
  obtain out where out: "fp_softmax arr = Inr out"
    using assms by (simp add: fp_softmax_nonempty)
  from fp_softmax_sum_bounds [OF assms out]
  have "\<bar>sum_list out - SCALE\<bar> \<le> int (length arr)"
    by linarith
  with out fp_softmax_out_nonneg [OF assms out] show ?thesis
    by blast
qed

theorem fp_softmax_nonneg_sum_witness:
  "[1, 2, 3] \<noteq> ([] :: int list)
   \<and> (\<exists>out. fp_softmax [1, 2, 3] = Inr out
           \<and> (\<forall>p\<in>set out. 0 \<le> p)
           \<and> \<bar>sum_list out - SCALE\<bar> \<le> int (length [1, 2, 3 :: int]))"
proof -
  have h: "[1, 2, 3] \<noteq> ([] :: int list)" by simp
  from fp_softmax_nonneg_sum [OF h] h show ?thesis by blast
qed

text \<open>
  Claim C10: for every non-empty list of scores \<open>max(arr)\<close> succeeds, the total of the
  exponentials is strictly positive (the maximum shifts to 0 and \<open>fp_exp 0 = SCALE\<close>),
  and so every output is \<open>e * SCALE // total\<close>: the uniform fallback is never taken and
  the division is never by zero.
\<close>

theorem fp_softmax_total_positive:
  assumes "arr \<noteq> []"
  shows "\<exists>max_val. py_max arr = Inr max_val
           \<and> fp_exp (max_val - max_val) = SCALE
           \<and> 0 < sum_list (softmax_exps arr max_val)
           \<and> fp_softmax arr =
               Inr (map (\<lambda>e. (e * SCALE) div sum_list (softmax_exps arr max_val))
                        (softmax_exps arr max_val))"
proof -
  have "0 < sum_list (softmax_exps arr (Max (set arr)))"
    using softmax_total_pos [OF assms] by (simp add: SCALE_def)
  with py_max_Cons [OF assms] fp_softmax_nonempty [OF assms] show ?thesis
    by (simp add: fp_exp_zero)
qed

theorem fp_softmax_total_positive_witness:
  "[5, - 7] \<noteq> ([] :: int list)
   \<and> (\<exists>max_val. py_max [5, - 7] = Inr max_val
           \<and> fp_exp (max_val - max_val) = SCALE
           \<and> 0 < sum_list (softmax_exps [5, - 7] max_val)
           \<and> fp_softmax [5, - 7] =
               Inr (map (\<lambda>e. (e * SCALE) div sum_list (softmax_exps [5, - 7] max_val))
                        (softmax_exps [5, - 7] max_val)))"
proof -
  have h: "[5, - 7] \<noteq> ([] :: int list)" by simp
  from fp_softmax_total_positive [OF h] h show ?thesis by blast
qed

subsection \<open>Square root\<close>

text \<open>
  The Newton iteration never divides by zero: for a positive input the guess stays
  positive, so \<open>fp_sqrt\<close> is total.
\<close>

lemma sqrt_loop_pos:
  "0 < x \<Longrightarrow> 0 < g \<Longrightarrow> \<exists>y. sqrt_loop n x g = Inr y \<and> 0 < y"
proof (induction n arbitrary: g)
  case 0
  then show ?case by simp
next
  case (Suc n)
  let ?dv = "(x * SCALE) div g"
  have dv: "0 \<le> ?dv"
    using Suc.prems by (simp add: pos_imp_zdiv_nonneg_iff SCALE_def)
  have "2 \<le> g + ?dv"
  proof (cases "g = 1")
    case True
    with Suc.prems show ?thesis by (simp add: SCALE_def)
  next
    case False
    with Suc.prems dv show ?thesis by linarith
  qed
  then have g': "0 < (g + ?dv) div 2"
    by linarith
  from Suc.IH [OF Suc.prems(1) g'] g' Suc.prems show ?case
    by (simp add: py_floordiv_def Let_def)
qed

lemma fp_sqrt_total: "\<exists>y. fp_sqrt x = Inr y \<and> 0 \<le> y"
proof (cases "x \<le> 0")
  case True
  then show ?thesis by (simp add: fp_sqrt_def)
next
  case False
  then have x: "0 < x" by simp
  have "0 < (if x div 2 < SCALE then SCALE else x div 2)"
    by (simp add: SCALE_def)
  from sqrt_loop_pos [OF x this, of 20] x show ?thesis
    by (auto simp: fp_sqrt_def Let_def)
qed

lemma fp_sqrt_pos: "0 < x \<Longrightarrow> \<exists>y. fp_sqrt x = Inr y \<and> 0 < y"
proof -
  assume x: "0 < x"
  have "0 < (if x div 2 < SCALE then SCALE else x div 2)"
    by (simp add: SCALE_def)
  from sqrt_loop_pos [OF x this, of 20] x show ?thesis
    by (auto simp: fp_sqrt_def Let_def)
qed

subsection \<open>Layer normalization\<close>

lemma layer_norm_value:
  fixes inp gamma beta :: "int list"
  defines "mean \<equiv> sum_list inp div int (length inp)"
  defines "variance \<equiv> (\<Sum>x\<leftarrow>inp. (x - mean)\<^sup>2 div SCALE) div int (length inp)"
  assumes "inp \<noteq> []" and "length gamma = length inp" and "length beta = length inp"
  shows "\<exists>s. fp_sqrt (variance + 100) = Inr s
           \<and> layer_norm inp gamma beta =
               Inr (map (\<lambda>i. ((inp ! i - mean) * SCALE div max 100 s) * gamma ! i div SCALE + beta ! i)
                        [0..<length inp])"
proof -
  obtain s where s: "fp_sqrt (variance + 100) = Inr s"
    using fp_sqrt_total by blast
  have n: "int (length inp) \<noteq> 0"
    using assms(3) by simp
  have std: "(if s < 100 then 100 else s) = max 100 s"
    by (simp add: max_def)
  have "layer_norm inp gamma beta =
      mapM (\<lambda>i. bindE (py_index inp i) (\<lambda>x.
                 bindE (py_index gamma i) (\<lambda>g.
                 bindE (py_index beta i) (\<lambda>b.
                 Inr (((x - mean) * SCALE div max 100 s) * g div SCALE + b)))))
           (range_py (int (length inp)))"
    using n s by (simp add: layer_norm_def Let_def py_floordiv_def mean_def [symmetric]
        variance_def [symmetric] std del: range_py_int)
  also have "\<dots> = Inr (map (\<lambda>i. ((inp ! i - mean) * SCALE div max 100 s) * gamma ! i div SCALE + beta ! i)
                        [0..<length inp])"
    unfolding range_py_int mapM_map
    by (rule mapM_Inr_map) (simp add: py_index_nat assms(4,5))
  finally show ?thesis
    using s by blast
qed

text \<open>
  Claim C4: for an input vector of \<open>E \<ge> 1\<close> integers with scale and bias vectors of the
  same length, layer normalization succeeds and returns at index \<open>i\<close>
  \<open>((inp[i] - mean) * SCALE // std) * gamma[i] // SCALE + beta[i]\<close>, where \<open>mean\<close> is the
  floor-division average, the variance is the floored average of the squared deviations,
  each first floor-divided by \<open>SCALE\<close>, and \<open>std\<close> is \<open>fp_sqrt (variance + 100)\<close> raised to
  at least 100.
\<close>

theorem layer_norm_formula:
  fixes inp gamma beta :: "int list"
  defines "mean \<equiv> sum_list inp div int (length inp)"
  defines "variance \<equiv> (\<Sum>x\<leftarrow>inp. (x - mean)\<^sup>2 div SCALE) div int (length inp)"
  assumes "inp \<noteq> []" and "length gamma = length inp" and "length beta = length inp"
  shows "\<exists>s. fp_sqrt (variance + 100) = Inr s
           \<and> layer_norm inp gamma beta =
               Inr (map (\<lambda>i. ((inp ! i - mean) * SCALE div max 100 s) * gamma ! i div SCALE + beta ! i)
                        [0..<length inp])"
  unfolding mean_def variance_def using assms(3-5) by (rule layer_norm_value)

theorem layer_norm_formula_witness:
  "[100, 200, - 50] \<noteq> ([] :: int list)
   \<and> layer_norm [100, 200, - 50] [10000, 10000, 10000] [0, 0, 5] = Inr [170, 1170, - 1325]"
proof -
  have h: "[100, 200, - 50] \<noteq> ([] :: int list)" by simp
  have s: "fp_sqrt 100 = Inr 1000"
    by code_simp
  from layer_norm_formula [OF h, of "[10000, 10000, 10000]" "[0, 0, 5]"] h
  show ?thesis
    by (simp add: SCALE_def s upt_rec)
qed

subsection \<open>Truncation\<close>

lemma truncate_take: "0 \<le> W \<Longrightarrow> W < int (length tokens) \<Longrightarrow> truncate tokens W = take (nat W) tokens"
  by (simp add: truncate_def py_slice_to_def Let_def)

lemma truncate_id: "int (length tokens) \<le> W \<Longrightarrow> truncate tokens W = tokens"
  by (simp add: truncate_def Let_def)

lemma truncate_idem: "0 \<le> W \<Longrightarrow> truncate (truncate tokens W) W = truncate tokens W"
proof (cases "W < int (length tokens)")
  case True
  assume "0 \<le> W"
  with True show ?thesis
    by (simp add: truncate_take truncate_id)
next
  case False
  then show ?thesis by (simp add: truncate_id)
qed

lemma truncate_map: "truncate (map f tokens) W = map f (truncate tokens W)"
  by (simp add: truncate_def py_slice_to_def Let_def take_map)

lemma set_truncate: "set (truncate tokens W) \<subseteq> set tokens"
  by (auto simp: truncate_def py_slice_to_def Let_def dest: in_set_takeD)

lemma forward_long:
  assumes "config ''block_size'' = Some W" and "0 \<le> W" and "W < int (length tokens)"
  shows "forward tokens config weights = forward_from (take (nat W) tokens) config weights"
  using assms by (simp add: forward_def dict_get_def truncate_take)

lemma forward_short:
  assumes "config ''block_size'' = Some W" and "int (length tokens) \<le> W"
  shows "forward tokens config weights = forward_from tokens config weights"
  using assms by (simp add: forward_def dict_get_def truncate_id)

lemma length_embed_tokens:
  "embed_tokens wte wpe n_embd tokens = Inr emb \<Longrightarrow> length emb = length tokens"
  by (auto simp: embed_tokens_def dest: mapM_Inr_length)

lemma forward_from_embeds:
  assumes "forward_from tokens config weights = Inr logits"
  shows "\<exists>E wte wpe emb. config ''n_embd'' = Some E \<and> weights ''wte'' = Some wte
           \<and> weights ''wpe'' = Some wpe
           \<and> embed_tokens wte wpe E tokens = Inr emb \<and> length emb = length tokens"
proof -
  from assms obtain E wte wpe emb where
    "config ''n_embd'' = Some E" "weights ''wte'' = Some wte" "weights ''wpe'' = Some wpe"
    "embed_tokens wte wpe E tokens = Inr emb"
    unfolding forward_from_def bindE_eq_Inr dict_get_Inr by blast
  with length_embed_tokens [of wte wpe E tokens emb] show ?thesis
    by blast
qed

text \<open>
  Claim C2: with a context window \<open>W = block_size \<ge> 0\<close>, the forward pass on a token
  sequence strictly longer than \<open>W\<close> is the rest of the pass (\<open>forward_from\<close>: embedding,
  blocks, final norm, projection) run on the first \<open>W\<close> tokens, so it returns exactly
  what the forward pass returns on that prefix, and what it embeds are those \<open>W\<close> tokens;
  on a sequence of length at most \<open>W\<close>, in particular of length exactly \<open>W\<close>, the rest of
  the pass runs on the sequence unmodified and every token is embedded.
\<close>

theorem forward_truncates_to_prefix:
  assumes "config ''block_size'' = Some W" and "0 \<le> W"
  shows "(W < int (length tokens) \<longrightarrow>
            forward tokens config weights = forward_from (take (nat W) tokens) config weights
          \<and> forward (take (nat W) tokens) config weights
              = forward_from (take (nat W) tokens) config weights
          \<and> forward tokens config weights = forward (take (nat W) tokens) config weights
          \<and> (\<forall>logits. forward tokens config weights = Inr logits \<longrightarrow>
                (\<exists>E wte wpe emb. config ''n_embd'' = Some E \<and> weights ''wte'' = Some wte
                   \<and> weights ''wpe'' = Some wpe
                   \<and> embed_tokens wte wpe E (take (nat W) tokens) = Inr emb
                   \<and> length emb = nat W)))
       \<and> (int (length tokens) \<le> W \<longrightarrow>
            forward tokens config weights = forward_from tokens config weights
          \<and> (\<forall>logits. forward tokens config weights = Inr logits \<longrightarrow>
                (\<exists>E wte wpe emb. config ''n_embd'' = Some E \<and> weights ''wte'' = Some wte
                   \<and> weights ''wpe'' = Some wpe
                   \<and> embed_tokens wte wpe E tokens = Inr emb
                   \<and> length emb = length tokens)))"
proof (intro conjI impI allI)
  assume len: "W < int (length tokens)"
  show long: "forward tokens config weights = forward_from (take (nat W) tokens) config weights"
    using assms len by (rule forward_long)
  have "int (length (take (nat W) tokens)) \<le> W"
    using assms(2) by simp
  with assms(1)
  show pre: "forward (take (nat W) tokens) config weights
      = forward_from (take (nat W) tokens) config weights"
    by (rule forward_short)
  from long pre
  show "forward tokens config weights = forward (take (nat W) tokens) config weights"
    by simp
  fix logits assume "forward tokens config weights = Inr logits"
  with long have "forward_from (take (nat W) tokens) config weights = Inr logits"
    by simp
  from forward_from_embeds [OF this] len assms(2)
  show "\<exists>E wte wpe emb. config ''n_embd'' = Some E \<and> weights ''wte'' = Some wte
          \<and> weights ''wpe'' = Some wpe
          \<and> embed_tokens wte wpe E (take (nat W) tokens) = Inr emb
          \<and> length emb = nat W"
    by (auto simp: min_def)
next
  assume len: "int (length tokens) \<le> W"
  with assms(1) show short: "forward tokens config weights = forward_from tokens config weights"
    by (rule forward_short)
  fix logits assume "forward tokens config weights = Inr logits"
  with short have "forward_from tokens config weights = Inr logits"
    by simp
  then show "\<exists>E wte wpe emb. config ''n_embd'' = Some E \<and> weights ''wte'' = Some wte
          \<and> weights ''wpe'' = Some wpe
          \<and> embed_tokens wte wpe E tokens = Inr emb
          \<and> length emb = length tokens"
    by (rule forward_from_embeds)
qed

theorem forward_truncates_to_prefix_witness:
  "small_config ''block_size'' = Some 2
   \<and> forward_from [0, 2] small_config small_weights = Inr [- 2140, - 1925, 1151]
   \<and> forward [0, 2, 1] small_config small_weights = Inr [- 2140, - 1925, 1151]
   \<and> forward [0, 2] small_config small_weights = Inr [- 2140, - 1925, 1151]
   \<and> forward [0, 2, 1] small_config small_weights = forward [0, 2] small_config small_weights"
proof -
  have W: "small_config ''block_size'' = Some 2"
    by (simp add: small_config_def)
  have v: "forward_from [0, 2] small_config small_weights = Inr [- 2140, - 1925, 1151]"
    by code_simp
  from forward_truncates_to_prefix
      [where config = small_config and W = 2 and tokens = "[0, 2, 1]" and weights = small_weights]
    forward_truncates_to_prefix
      [where config = small_config and W = 2 and tokens = "[0, 2]" and weights = small_weights]
    W v
  show ?thesis by simp
qed

subsection \<open>Vocabulary projection\<close>

lemma project_Inr:
  assumes "project last_hidden wte n_embd vocab_size = Inr logits"
  shows "length logits = nat vocab_size"
    and "v < nat vocab_size \<Longrightarrow>
         logits ! v = (\<Sum>i\<leftarrow>[0..<nat n_embd]. (last_hidden ! i * wte ! (v * nat n_embd + i)) div SCALE)"
proof -
  from assms show "length logits = nat vocab_size"
    by (simp add: project_def mapM_Inr_length)
next
  assume v: "v < nat vocab_size"
  then have rv: "range_py vocab_size ! v = int v"
    by (rule nth_range_py)
  from assms v have "bindE (mapM (\<lambda>i.
                            bindE (py_index last_hidden i) (\<lambda>a.
                            bindE (py_index wte (int v * n_embd + i)) (\<lambda>b.
                            Inr ((a * b) div SCALE))))
                         (range_py n_embd)) (\<lambda>terms. Inr (sum_list terms)) = Inr (logits ! v)"
    unfolding project_def using mapM_Inr_nth [of _ "range_py vocab_size" logits v]
    by (simp add: rv Let_def)
  then obtain terms where terms: "mapM (\<lambda>i.
                            bindE (py_index last_hidden i) (\<lambda>a.
                            bindE (py_index wte (int v * n_embd + i)) (\<lambda>b.
                            Inr ((a * b) div SCALE))))
                         (range_py n_embd) = Inr terms" and lv: "logits ! v = sum_list terms"
    by (auto simp: bindE_eq_Inr)
  have "terms = map (\<lambda>i. (last_hidden ! nat i * wte ! (v * nat n_embd + nat i)) div SCALE) (range_py n_embd)"
  proof (rule mapM_Inr_eq_map [OF terms])
    fix i y
    assume i: "i \<in> set (range_py n_embd)"
      and y: "bindE (py_index last_hidden i) (\<lambda>a.
                bindE (py_index wte (int v * n_embd + i)) (\<lambda>b. Inr ((a * b) div SCALE))) = Inr y"
    from i have i0: "0 \<le> i" "i < n_embd"
      by (simp_all add: set_range_py)
    then have idx: "0 \<le> int v * n_embd + i" by simp
    have nat_idx: "nat (int v * n_embd + i) = v * nat n_embd + nat i"
      using i0 by (simp add: nat_add_distrib nat_mult_distrib)
    from y obtain a b where a: "py_index last_hidden i = Inr a"
      and b: "py_index wte (int v * n_embd + i) = Inr b" and yab: "y = (a * b) div SCALE"
      by (auto simp: bindE_eq_Inr)
    from py_index_Inr_nonneg [OF a i0(1)] py_index_Inr_nonneg [OF b idx] yab nat_idx
    show "y = (last_hidden ! nat i * wte ! (v * nat n_embd + nat i)) div SCALE"
      by simp
  qed
  then have "terms = map (\<lambda>i. (last_hidden ! i * wte ! (v * nat n_embd + i)) div SCALE) [0..<nat n_embd]"
    by (simp add: range_py_def comp_def)
  with lv show "logits ! v = (\<Sum>i\<leftarrow>[0..<nat n_embd]. (last_hidden ! i * wte ! (v * nat n_embd + i)) div SCALE)"
    by simp
qed

text \<open>
  Claim C3: when the forward pass succeeds, it returns exactly \<open>vocab_size\<close> integers, and
  the \<open>v\<close>-th is the sum over \<open>i\<close> of \<open>last_hidden[i] * wte[v * n_embd + i] // SCALE\<close>, where
  \<open>last_hidden\<close> is the final layer norm of the last position of the hidden states after
  all blocks; there is no bias, and the projection matrix is the token-embedding table
  \<open>wte\<close> that also embedded the tokens.
\<close>

theorem forward_logits:
  assumes "forward tokens config weights = Inr logits"
  shows "\<exists>W E V L wte wpe ln_f_w ln_f_b emb hidden last_hidden.
           config ''block_size'' = Some W \<and> config ''n_embd'' = Some E
         \<and> config ''vocab_size'' = Some V \<and> config ''n_layer'' = Some L
         \<and> weights ''wte'' = Some wte \<and> weights ''wpe'' = Some wpe
         \<and> weights ''ln_f_w'' = Some ln_f_w \<and> weights ''ln_f_b'' = Some ln_f_b
         \<and> embed_tokens wte wpe E (truncate tokens W) = Inr emb
         \<and> run_blocks emb L config weights = Inr hidden
         \<and> hidden \<noteq> []
         \<and> layer_norm (last hidden) ln_f_w ln_f_b = Inr last_hidden
         \<and> length logits = nat V
         \<and> (\<forall>v<nat V. logits ! v =
               (\<Sum>i\<leftarrow>[0..<nat E]. (last_hidden ! i * wte ! (v * nat E + i)) div SCALE))"
proof -
  from assms obtain W E V L wte wpe ln_f_w ln_f_b emb hidden lst last_hidden where
    cfg: "config ''block_size'' = Some W" "config ''n_embd'' = Some E"
      "config ''vocab_size'' = Some V" "config ''n_layer'' = Some L"
    and ws: "weights ''wte'' = Some wte" "weights ''wpe'' = Some wpe"
      "weights ''ln_f_w'' = Some ln_f_w" "weights ''ln_f_b'' = Some ln_f_b"
    and emb: "embed_tokens wte wpe E (truncate tokens W) = Inr emb"
    and blocks: "run_blocks emb L config weights = Inr hidden"
    and lst: "py_index hidden (- 1) = Inr lst"
    and ln: "layer_norm lst ln_f_w ln_f_b = Inr last_hidden"
    and proj: "project last_hidden wte E V = Inr logits"
    unfolding forward_def forward_from_def Let_def bindE_eq_Inr dict_get_Inr by blast
  from py_index_last [OF lst] have ne: "hidden \<noteq> []" and l: "lst = last hidden"
    by simp_all
  from project_Inr [OF proj] cfg ws emb blocks ne ln [unfolded l] show ?thesis
    by blast
qed


theorem forward_logits_witness:
  "forward [0, 2] small_config small_weights = Inr [- 2140, - 1925, 1151]
   \<and> (\<exists>W E V L wte wpe ln_f_w ln_f_b emb hidden last_hidden.
           small_config ''block_size'' = Some W \<and> small_config ''n_embd'' = Some E
         \<and> small_config ''vocab_size'' = Some V \<and> small_config ''n_layer'' = Some L
         \<and> small_weights ''wte'' = Some wte \<and> small_weights ''wpe'' = Some wpe
         \<and> small_weights ''ln_f_w'' = Some ln_f_w \<and> small_weights ''ln_f_b'' = Some ln_f_b
         \<and> embed_tokens wte wpe E (truncate [0, 2] W) = Inr emb
         \<and> run_blocks emb L small_config small_weights = Inr hidden
         \<and> hidden \<noteq> []
         \<and> layer_norm (last hidden) ln_f_w ln_f_b = Inr last_hidden
         \<and> length [- 2140, - 1925, 1151 :: int] = nat V
         \<and> (\<forall>v<nat V. [- 2140, - 1925, 1151] ! v =
               (\<Sum>i\<leftarrow>[0..<nat E]. (last_hidden ! i * wte ! (v * nat E + i)) div SCALE)))"
proof -
  have h: "forward [0, 2] small_config small_weights = Inr [- 2140, - 1925, 1151]"
    by code_simp
  show ?thesis
    by (rule conjI [OF h forward_logits [OF h]])
qed

subsection \<open>Causal mask\<close>

lemma attn_scores_future:
  assumes "attn_scores Q K head_dim scale seq_len i = Inr scores"
    and "0 \<le> j" and "i < j" and "j < seq_len"
  shows "scores ! nat j = - 1000000000"
proof -
  have k: "nat j < length (range_py seq_len)"
    using assms(2,4) by simp
  then have r: "range_py seq_len ! nat j = j"
    using assms(2) by (simp add: nth_range_py)
  from mapM_Inr_nth [OF assms(1) [unfolded attn_scores_def] k] assms(3) show ?thesis
    by (simp add: r)
qed

lemma attn_scores_length: "attn_scores Q K head_dim scale seq_len i = Inr scores \<Longrightarrow> length scores = nat seq_len"
  by (simp add: attn_scores_def mapM_Inr_length)

lemma fp_softmax_masked:
  assumes "fp_softmax scores = Inr probs" and "k < length scores" and "k' < length scores"
    and "scores ! k < scores ! k' - 8 * SCALE"
  shows "probs ! k = 0"
proof -
  have ne: "scores \<noteq> []"
    using assms(2) by auto
  let ?M = "Max (set scores)"
  have "scores ! k' \<le> ?M"
    using assms(3) by (intro Max_ge) simp_all
  with assms(4) have "scores ! k - ?M < - 8 * SCALE"
    by linarith
  then have e: "fp_exp (scores ! k - ?M) = 0"
    by (rule fp_exp_below)
  from assms(1) have "probs = map (\<lambda>e. (e * SCALE) div sum_list (softmax_exps scores ?M)) (softmax_exps scores ?M)"
    by (simp add: fp_softmax_nonempty [OF ne])
  with assms(2) e show ?thesis
    by (simp add: softmax_exps_def)
qed

lemma mapM_range_nth:
  assumes "mapM f (range_py n) = Inr ys" and "0 \<le> k" and "k < n"
  shows "f k = Inr (ys ! nat k)"
proof -
  have "nat k < length (range_py n)" using assms(2,3) by simp
  from mapM_Inr_nth [OF assms(1) this] assms(2,3) show ?thesis
    by (simp add: nth_range_py)
qed

lemma multi_head_attention_Inr:
  "multi_head_attention hidden layer config weights = Inr output \<longleftrightarrow>
   (\<exists>rows. multi_head_attention_trace hidden layer config weights = Inr (rows, output))"
  by (auto simp: multi_head_attention_def bindE_eq_Inr)

text \<open>
  The rows of a successful run: one list per head, one pair per query position, each
  pair the score row of that position and its softmax.
\<close>

lemma multi_head_attention_trace_rows:
  assumes "multi_head_attention_trace hidden layer config weights = Inr (rows, output)"
    and "config ''n_head'' = Some n_head"
  shows "length rows = nat n_head"
    and "0 \<le> h \<Longrightarrow> h < n_head \<Longrightarrow> length (rows ! nat h) = length hidden"
    and "0 \<le> h \<Longrightarrow> h < n_head \<Longrightarrow> 0 \<le> i \<Longrightarrow> i < int (length hidden) \<Longrightarrow>
         \<exists>Q K head_dim scale scores probs.
           rows ! nat h ! nat i = (scores, probs)
         \<and> attn_scores Q K head_dim scale (int (length hidden)) i = Inr scores
         \<and> fp_softmax scores = Inr probs"
proof -
  from assms obtain E D qkv scale heads where
    heads: "mapM (attention_head qkv E D scale (int (length hidden))) (range_py n_head) = Inr heads"
    and rows: "rows = map (map fst) heads"
    unfolding multi_head_attention_trace_def Let_def bindE_eq_Inr dict_get_Inr by auto
  have len: "length heads = nat n_head"
    using mapM_Inr_length [OF heads] by simp
  then show "length rows = nat n_head"
    by (simp add: rows)
  {
    assume h: "0 \<le> h" "h < n_head"
    then have hn: "nat h < length heads" using len by simp
    from mapM_range_nth [OF heads h]
    have "attention_head qkv E D scale (int (length hidden)) h = Inr (heads ! nat h)" .
    then obtain Q K V where
      pos: "mapM (attention_position Q K V D scale (int (length hidden)))
              (range_py (int (length hidden))) = Inr (heads ! nat h)"
      unfolding attention_head_def Let_def bindE_eq_Inr by auto
    have lh: "length (heads ! nat h) = length hidden"
      using mapM_Inr_length [OF pos] by simp
    with hn show "length (rows ! nat h) = length hidden"
      by (simp add: rows)
    assume i: "0 \<le> i" "i < int (length hidden)"
    then have il: "nat i < length (heads ! nat h)" using lh by simp
    from mapM_range_nth [OF pos i]
    have "attention_position Q K V D scale (int (length hidden)) i = Inr (heads ! nat h ! nat i)" .
    then have "\<exists>scores probs out_vec.
        attn_scores Q K D scale (int (length hidden)) i = Inr scores
      \<and> fp_softmax scores = Inr probs
      \<and> ((scores, probs), out_vec) = heads ! nat h ! nat i"
      unfolding attention_position_def bindE_eq_Inr by auto
    then obtain scores probs out_vec where
      s: "attn_scores Q K D scale (int (length hidden)) i = Inr scores"
      and p: "fp_softmax scores = Inr probs"
      and e: "heads ! nat h ! nat i = ((scores, probs), out_vec)"
      by metis
    from e hn il have "rows ! nat h ! nat i = (scores, probs)"
      by (simp add: rows)
    with s p show "\<exists>Q K head_dim scale scores probs.
           rows ! nat h ! nat i = (scores, probs)
         \<and> attn_scores Q K head_dim scale (int (length hidden)) i = Inr scores
         \<and> fp_softmax scores = Inr probs"
      by blast
  }
qed

text \<open>
  Claim C5, as stated, fails for the weight: the sentinel is the finite constant
  \<open>-10^9\<close>, and softmax subtracts the row maximum. In the model below every real score
  is \<open>-10^10\<close>, so at query position 0 the sentinel of the future position 1 is the row
  maximum and position 1 receives the whole weight \<open>SCALE\<close>: the attention output of
  position 0 is the value \<open>20000\<close> of position 1.
\<close>

theorem causal_mask_counterexample:
  "multi_head_attention_trace [[0], [10000]] 0 extreme_config extreme_weights
     = Inr ([[([- 10000000000, - 1000000000], [0, 10000]),
              ([- 10000000000, - 10000000000], [5000, 5000])]],
            [[20000], [15000]])
   \<and> multi_head_attention [[0], [10000]] 0 extreme_config extreme_weights
     = Inr [[20000], [15000]]"
  by code_simp

text \<open>
  Claim C5, amended: whenever multi-head attention succeeds, for every head \<open>h\<close>, every
  query position \<open>i\<close> and every key position \<open>j > i\<close> of the sequence, the raw score that
  the run computes is the sentinel \<open>-10^9\<close>, the weights are the softmax of the score row,
  and the weight from \<open>i\<close> to \<open>j\<close> is exactly 0 whenever some real score of the row (a key
  position \<open>j' \<le> i\<close>) is greater than \<open>-10^9 + 8 * SCALE\<close>.
\<close>

theorem causal_mask:
  assumes "multi_head_attention hidden layer config weights = Inr output"
    and "config ''n_head'' = Some n_head"
    and "0 \<le> h" and "h < n_head"
    and "0 \<le> i" and "i < j" and "j < int (length hidden)"
  shows "\<exists>rows scores probs.
           multi_head_attention_trace hidden layer config weights = Inr (rows, output)
         \<and> length rows = nat n_head
         \<and> length (rows ! nat h) = length hidden
         \<and> rows ! nat h ! nat i = (scores, probs)
         \<and> length scores = length hidden
         \<and> fp_softmax scores = Inr probs
         \<and> scores ! nat j = - 1000000000
         \<and> (\<forall>j'. 0 \<le> j' \<and> j' \<le> i \<and> - 1000000000 + 8 * SCALE < scores ! nat j'
                \<longrightarrow> probs ! nat j = 0)"
proof -
  from assms(1) obtain rows where
    tr: "multi_head_attention_trace hidden layer config weights = Inr (rows, output)"
    unfolding multi_head_attention_Inr by blast
  have i: "i < int (length hidden)" and j0: "0 \<le> j"
    using assms(5,6,7) by simp_all
  from multi_head_attention_trace_rows(3) [OF tr assms(2,3,4,5) i]
  obtain Q K head_dim scale scores probs where
    row: "rows ! nat h ! nat i = (scores, probs)"
    and sc: "attn_scores Q K head_dim scale (int (length hidden)) i = Inr scores"
    and sm: "fp_softmax scores = Inr probs"
    by blast
  have len: "length scores = length hidden"
    using attn_scores_length [OF sc] by simp
  have m: "scores ! nat j = - 1000000000"
    using sc j0 assms(6,7) by (rule attn_scores_future)
  have z: "probs ! nat j = 0"
    if "0 \<le> j' \<and> j' \<le> i \<and> - 1000000000 + 8 * SCALE < scores ! nat j'" for j'
  proof (rule fp_softmax_masked [OF sm])
    show "nat j < length scores" using assms(7) j0 len by simp
    show "nat j' < length scores" using that i len by (auto simp: nat_less_iff)
    show "scores ! nat j < scores ! nat j' - 8 * SCALE"
      using m that by simp
  qed
  from tr multi_head_attention_trace_rows(1,2) [OF tr assms(2)] assms(3,4) row len sm m z
  show ?thesis
    by blast
qed

theorem causal_mask_witness:
  "multi_head_attention [[0, 0], [0, 0]] 0 small_config small_weights = Inr [[2, - 1], [1, - 1]]
   \<and> small_config ''n_head'' = Some 1
   \<and> (\<exists>rows scores probs.
         multi_head_attention_trace [[0, 0], [0, 0]] 0 small_config small_weights
           = Inr (rows, [[2, - 1], [1, - 1]])
       \<and> rows ! nat 0 ! nat 0 = (scores, probs)
       \<and> scores = [0, - 1000000000]
       \<and> probs ! nat 1 = 0)"
proof -
  have h: "multi_head_attention [[0, 0], [0, 0]] 0 small_config small_weights = Inr [[2, - 1], [1, - 1]]"
    by code_simp
  have t: "multi_head_attention_trace [[0, 0], [0, 0]] 0 small_config small_weights
      = Inr ([[([0, - 1000000000], [10000, 0]), ([0, 0], [5000, 5000])]], [[2, - 1], [1, - 1]])"
    by code_simp
  have n: "small_config ''n_head'' = Some 1"
    by (simp add: small_config_def)
  from causal_mask [where h = 0 and i = 0 and j = 1, OF h n]
  obtain rows scores probs where
    tr: "multi_head_attention_trace [[0, 0], [0, 0]] 0 small_config small_weights
           = Inr (rows, [[2, - 1], [1, - 1]])"
    and row: "rows ! nat 0 ! nat 0 = (scores, probs)"
    and z: "\<forall>j'. 0 \<le> j' \<and> j' \<le> 0 \<and> - 1000000000 + 8 * SCALE < scores ! nat j'
              \<longrightarrow> probs ! nat 1 = 0"
    by auto
  from tr t have "rows = [[([0, - 1000000000], [10000, 0]), ([0, 0], [5000, 5000])]]"
    by simp
  with row have s: "scores = [0, - 1000000000]"
    by simp
  with z have "probs ! nat 1 = 0"
    by (auto simp: SCALE_def)
  with h n tr row s show ?thesis
    by blast
qed

subsection \<open>Token ids outside the vocabulary\<close>

lemma embed_row_error: "embed_row wte wpe E t tok = Inl e \<Longrightarrow> e = IndexError"
proof -
  assume "embed_row wte wpe E t tok = Inl e"
  then obtain i where "bindE (py_index wte (tok * E + i)) (\<lambda>a.
      bindE (py_index wpe (t * E + i)) (\<lambda>b. Inr (a + b))) = Inl e"
    unfolding embed_row_def Let_def by (blast dest: mapM_Inl_member)
  then show ?thesis
    by (cases "py_index wte (tok * E + i)"; cases "py_index wpe (t * E + i)")
      (auto dest: py_index_error)
qed

lemma embed_row_out_of_range:
  assumes "int (length wte) = V * E" and "0 < E" and "V \<le> tok \<or> tok < - V"
  shows "embed_row wte wpe E t tok = Inl IndexError"
proof -
  have VE: "0 \<le> V * E"
    using assms(1) [symmetric] by simp
  have "py_index wte (tok * E) = Inl IndexError"
  proof (cases "V \<le> tok")
    case True
    then have "V * E \<le> tok * E"
      using assms(2) by (simp add: mult_right_mono)
    with VE assms(1) show ?thesis
      by (simp add: py_index_def)
  next
    case False
    with assms(3) have "tok + V \<le> - 1" by simp
    then have "(tok + V) * E \<le> - 1 * E"
      using assms(2) by (intro mult_right_mono) simp_all
    then have "tok * E + V * E < 0"
      using assms(2) by (simp add: distrib_right)
    with VE assms(1) show ?thesis
      by (simp add: py_index_def)
  qed
  moreover obtain m where "nat E = Suc m"
    using assms(2) by (cases "nat E") simp_all
  then have "range_py E = 0 # map int [Suc 0..<Suc m]"
    by (simp add: range_py_def upt_rec [of 0])
  ultimately show ?thesis
    by (simp add: embed_row_def)
qed

lemma embed_out_of_range:
  assumes "int (length wte) = V * E" and "0 < E" and "tok \<in> set tokens" and "V \<le> tok \<or> tok < - V"
  shows "embed_tokens wte wpe E tokens = Inl IndexError"
  unfolding embed_tokens_def
proof (rule mapM_Inl_IndexError)
  fix x e
  assume "(case x of (t, tok) \<Rightarrow> embed_row wte wpe E t tok) = Inl e"
  then show "e = IndexError"
    by (cases x) (auto dest: embed_row_error)
next
  have "length (range_py (int (length tokens))) = length tokens"
    by simp
  from in_set_impl_in_set_zip2 [OF this assms(3)]
  obtain t where "(t, tok) \<in> set (zip (range_py (int (length tokens))) tokens)"
    by blast
  moreover have "embed_row wte wpe E t tok = Inl IndexError"
    using assms(1,2,4) by (rule embed_row_out_of_range)
  ultimately show "\<exists>x\<in>set (zip (range_py (int (length tokens))) tokens).
      (case x of (t, tok) \<Rightarrow> embed_row wte wpe E t tok) = Inl IndexError"
    by force
qed

text \<open>
  Claim C1, as stated, fails: the source has no check of the token ids and no
  TokenRangeError. A negative id in \<open>[-vocab_size, 0)\<close> is not rejected at all; the
  forward pass below returns logits for the id \<open>-1\<close>.
\<close>

theorem forward_negative_token_counterexample:
  "small_config ''vocab_size'' = Some 3 \<and> forward [0, - 1] small_config small_weights = Inr [- 2140, - 1925, 1151]"
  by code_simp

text \<open>
  Claim C1, amended: when the token-embedding table has \<open>vocab_size * n_embd\<close> entries and
  \<open>n_embd \<ge> 1\<close>, a call whose kept tokens (after truncation) contain an id \<open>\<ge> vocab_size\<close> or
  \<open>< -vocab_size\<close> fails with IndexError, raised by the embedding lookup itself, and
  returns no logits. \<open>forward\<close> only reads \<open>config\<close> and \<open>weights\<close>: its result is the
  error or the logits, nothing else.
\<close>

theorem forward_out_of_range_token:
  assumes "config ''block_size'' = Some W" and "config ''n_embd'' = Some E"
    and "config ''vocab_size'' = Some V" and "config ''n_layer'' = Some L"
    and "weights ''wte'' = Some wte" and "weights ''wpe'' = Some wpe"
    and "weights ''ln_f_w'' = Some ln_f_w" and "weights ''ln_f_b'' = Some ln_f_b"
    and "int (length wte) = V * E" and "0 < E"
    and "tok \<in> set (truncate tokens W)" and "V \<le> tok \<or> tok < - V"
  shows "embed_tokens wte wpe E (truncate tokens W) = Inl IndexError
       \<and> forward tokens config weights = Inl IndexError"
proof -
  have "embed_tokens wte wpe E (truncate tokens W) = Inl IndexError"
    using assms(9-12) by (rule embed_out_of_range)
  then show ?thesis
    by (simp add: forward_def forward_from_def dict_get_def assms(1-8))
qed

theorem forward_out_of_range_token_witness:
  "forward [0, 3] small_config small_weights = Inl IndexError"
proof -
  have "embed_tokens [1000, - 2000, 3000, 500, - 700, 900] [100, 200, - 300, 400] 2 (truncate [0, 3] 2) = Inl IndexError
       \<and> forward [0, 3] small_config small_weights = Inl IndexError"
    by (rule forward_out_of_range_token [where tok = 3 and V = 3 and L = 1
          and ln_f_w = "[10000, 9000]" and ln_f_b = "[0, 100]"])
      (simp_all add: small_config_def small_weights_def truncate_def)
  then show ?thesis by simp
qed

subsection \<open>Negative token ids wrap around\<close>

lemma embed_row_wrap:
  assumes "int (length wte) = V * E" and "- V \<le> tok" and "tok < 0"
  shows "embed_row wte wpe E t tok = embed_row wte wpe E t (tok + V)"
  unfolding embed_row_def Let_def
proof (rule mapM_cong)
  fix i assume "i \<in> set (range_py E)"
  then have i: "0 \<le> i" "i < E"
    by (simp_all add: set_range_py)
  have "(tok + 1) * E \<le> 0"
    using assms(3) i by (intro mult_nonpos_nonneg) simp_all
  then have neg: "tok * E + i < 0"
    using i by (simp add: distrib_right)
  have "0 \<le> (tok + V) * E"
    using assms(2) i by (intro mult_nonneg_nonneg) simp_all
  then have pos: "0 \<le> (tok + V) * E + i"
    using i by simp
  have eq: "tok * E + i + V * E = (tok + V) * E + i"
    by (simp add: algebra_simps)
  have lt: "(tok + V) * E + i < V * E"
    using neg by (simp add: distrib_right)
  have "py_index wte (tok * E + i) = py_index wte ((tok + V) * E + i)"
    using neg pos lt by (simp add: py_index_def Let_def assms(1) eq)
  then show "bindE (py_index wte (tok * E + i)) (\<lambda>a. bindE (py_index wpe (t * E + i)) (\<lambda>b. Inr (a + b)))
     = bindE (py_index wte ((tok + V) * E + i)) (\<lambda>a. bindE (py_index wpe (t * E + i)) (\<lambda>b. Inr (a + b)))"
    by simp
qed

lemma embed_wrap:
  assumes "int (length wte) = V * E" and "\<forall>tok\<in>set tokens. - V \<le> tok"
  shows "embed_tokens wte wpe E (map (wrap_token V) tokens) = embed_tokens wte wpe E tokens"
proof -
  have "embed_tokens wte wpe E (map (wrap_token V) tokens)
      = mapM (\<lambda>x. case x of (t, tok) \<Rightarrow> embed_row wte wpe E t (wrap_token V tok))
             (zip (range_py (int (length tokens))) tokens)"
    by (simp add: embed_tokens_def zip_map2 mapM_map case_prod_unfold)
  also have "\<dots> = embed_tokens wte wpe E tokens"
    unfolding embed_tokens_def
  proof (rule mapM_cong)
    fix x assume x: "x \<in> set (zip (range_py (int (length tokens))) tokens)"
    obtain t tok where xt: "x = (t, tok)" by (cases x)
    with x have "tok \<in> set tokens"
      by (auto dest: set_zip_rightD)
    with assms(2) have "- V \<le> tok" by simp
    then have "embed_row wte wpe E t (wrap_token V tok) = embed_row wte wpe E t tok"
      using embed_row_wrap [OF assms(1), of tok wpe t] by (simp add: wrap_token_def)
    with xt show "(case x of (t, tok) \<Rightarrow> embed_row wte wpe E t (wrap_token V tok))
        = (case x of (t, tok) \<Rightarrow> embed_row wte wpe E t tok)"
      by simp
  qed
  finally show ?thesis .
qed

lemma forward_wrap:
  assumes "config ''n_embd'' = Some E" and "config ''vocab_size'' = Some V"
    and "weights ''wte'' = Some wte" and "int (length wte) = V * E"
    and "\<forall>tok\<in>set tokens. - V \<le> tok"
  shows "forward (map (wrap_token V) tokens) config weights = forward tokens config weights"
proof (cases "config ''block_size''")
  case None
  then show ?thesis by (simp add: forward_def forward_from_def dict_get_def)
next
  case (Some W)
  have "\<forall>tok\<in>set (truncate tokens W). - V \<le> tok"
    using assms(5) set_truncate [of tokens W] by blast
  with assms(4) have "embed_tokens wte wpe E (map (wrap_token V) (truncate tokens W)) = embed_tokens wte wpe E (truncate tokens W)" for wpe
    by (rule embed_wrap)
  then show ?thesis
    by (simp add: forward_def forward_from_def dict_get_def Some assms(1-3) truncate_map split: option.splits)
qed

subsection \<open>The forward pass succeeds on a well-shaped model\<close>

lemma mapM_total:
  assumes "\<And>x. x \<in> set xs \<Longrightarrow> \<exists>y. f x = Inr y \<and> P y"
  shows "\<exists>ys. mapM f xs = Inr ys \<and> length ys = length xs \<and> (\<forall>y\<in>set ys. P y)"
  using assms
proof (induction xs)
  case Nil
  then show ?case by simp
next
  case (Cons x xs)
  from Cons.prems [of x] obtain y where y: "f x = Inr y" "P y" by auto
  from Cons.IH Cons.prems obtain ys where "mapM f xs = Inr ys" "length ys = length xs" "\<forall>y\<in>set ys. P y"
    by auto
  with y show ?case by simp
qed

lemma foldM_total:
  assumes "\<And>s x. x \<in> set xs \<Longrightarrow> \<exists>s'. f s x = Inr s'"
  shows "\<exists>s'. foldM f xs s = Inr s'"
  using assms
proof (induction xs arbitrary: s)
  case Nil
  then show ?case by simp
next
  case (Cons x xs)
  from Cons.prems [of x s] obtain s1 where "f s x = Inr s1" by auto
  moreover from Cons.IH [of s1] Cons.prems obtain s2 where "foldM f xs s1 = Inr s2"
    by auto
  ultimately show ?case by simp
qed

lemma foldM_invariant:
  assumes "I s" and "\<And>s x. I s \<Longrightarrow> x \<in> set xs \<Longrightarrow> \<exists>s'. f s x = Inr s' \<and> I s'"
  shows "\<exists>s'. foldM f xs s = Inr s' \<and> I s'"
  using assms
proof (induction xs arbitrary: s)
  case Nil
  then show ?case by simp
next
  case (Cons x xs)
  from Cons.prems(2) [OF Cons.prems(1), of x] obtain s1 where s1: "f s x = Inr s1" "I s1" by auto
  from Cons.IH [OF s1(2)] Cons.prems(2) obtain s2 where "foldM f xs s1 = Inr s2" "I s2"
    by auto
  with s1 show ?case by auto
qed

lemma flat_index_bound:
  fixes j i n m :: int
  assumes "0 \<le> j" "j < n" "0 \<le> i" "i < m"
  shows "0 \<le> j * m + i" and "j * m + i < n * m"
proof -
  have "0 \<le> j * m" using assms by simp
  then show "0 \<le> j * m + i" using assms by simp
  have "(j + 1) * m \<le> n * m"
    using assms by (intro mult_right_mono) simp_all
  then show "j * m + i < n * m"
    using assms by (simp add: distrib_right)
qed

lemma py_index_total: "0 \<le> i \<Longrightarrow> i < int (length xs) \<Longrightarrow> \<exists>y. py_index xs i = Inr y"
  by (simp add: py_index_def)

lemma shaped_row:
  assumes "shaped n c M" and "0 \<le> t" and "t < n"
  shows "\<exists>r. py_index M t = Inr r \<and> int (length r) = c"
proof -
  from assms have "nat t < length M" by (auto simp: shaped_def)
  then have "M ! nat t \<in> set M" by simp
  with assms show ?thesis
    by (auto simp: shaped_def py_index_def)
qed

lemma mapM_shaped:
  assumes "0 \<le> n" and "\<And>t. 0 \<le> t \<Longrightarrow> t < n \<Longrightarrow> \<exists>r. f t = Inr r \<and> int (length r) = c"
  shows "\<exists>M. mapM f (range_py n) = Inr M \<and> shaped n c M"
proof -
  have "\<exists>M. mapM f (range_py n) = Inr M \<and> length M = length (range_py n)
          \<and> (\<forall>r\<in>set M. int (length r) = c)"
    by (rule mapM_total) (simp add: set_range_py assms(2))
  with assms(1) show ?thesis
    by (auto simp: shaped_def)
qed

lemma mapM_range_length:
  assumes "0 \<le> n" and "\<And>t. 0 \<le> t \<Longrightarrow> t < n \<Longrightarrow> \<exists>r. f t = Inr r"
  shows "\<exists>ys. mapM f (range_py n) = Inr ys \<and> int (length ys) = n"
proof -
  have "\<exists>ys. mapM f (range_py n) = Inr ys \<and> length ys = length (range_py n)
          \<and> (\<forall>r\<in>set ys. True)"
    by (rule mapM_total) (simp add: set_range_py assms(2))
  with assms(1) show ?thesis
    by auto
qed

lemma dense_total:
  assumes "int (length x) = n_in" and "int (length w) = n_in * n_out" and "int (length b) = n_out"
  shows "\<exists>y. dense x n_in n_out w b = Inr y \<and> int (length y) = n_out"
  unfolding dense_def
proof (rule mapM_range_length)
  show "0 \<le> n_out" using assms(3) [symmetric] by simp
next
  fix i assume i: "0 \<le> i" "i < n_out"
  then obtain s where s: "py_index b i = Inr s"
    using assms(3) py_index_total [of i b] by auto
  have "\<exists>s'. foldM (\<lambda>s j. let w_idx = j * n_out + i in
              bindE (py_index x j) (\<lambda>xj. bindE (py_index w w_idx) (\<lambda>wv. Inr (s + (xj * wv) div SCALE))))
            (range_py n_in) s = Inr s'"
  proof (rule foldM_total)
    fix s j assume "j \<in> set (range_py n_in)"
    then have j: "0 \<le> j" "j < n_in" by (simp_all add: set_range_py)
    then obtain xj where xj: "py_index x j = Inr xj"
      using assms(1) py_index_total [of j x] by auto
    from flat_index_bound [OF j i] obtain wv where wv: "py_index w (j * n_out + i) = Inr wv"
      using assms(2) py_index_total [of "j * n_out + i" w] by auto
    show "\<exists>s'. (let w_idx = j * n_out + i in
              bindE (py_index x j) (\<lambda>xj. bindE (py_index w w_idx) (\<lambda>wv. Inr (s + (xj * wv) div SCALE)))) = Inr s'"
      by (simp add: xj wv)
  qed
  with s show "\<exists>r. bindE (py_index b i) (\<lambda>s. foldM (\<lambda>s j. let w_idx = j * n_out + i in
              bindE (py_index x j) (\<lambda>xj. bindE (py_index w w_idx) (\<lambda>wv. Inr (s + (xj * wv) div SCALE))))
            (range_py n_in) s) = Inr r"
    by simp
qed

lemma head_slice_total:
  assumes "shaped n c qkv" and "0 \<le> off" and "off + D \<le> c" and "0 \<le> D"
  shows "\<exists>Q. head_slice qkv off D n = Inr Q \<and> shaped n D Q"
  unfolding head_slice_def
proof (rule mapM_shaped)
  show "0 \<le> n" using assms(1) by (auto simp: shaped_def)
next
  fix t assume t: "0 \<le> t" "t < n"
  from shaped_row [OF assms(1) t] obtain row where row: "py_index qkv t = Inr row" "int (length row) = c"
    by auto
  show "\<exists>r. mapM (\<lambda>d. bindE (py_index qkv t) (\<lambda>row. py_index row (off + d))) (range_py D) = Inr r
          \<and> int (length r) = D"
  proof (rule mapM_range_length [OF assms(4)])
    fix d assume d: "0 \<le> d" "d < D"
    with assms(2,3) row(2) have "\<exists>y. py_index row (off + d) = Inr y"
      by (intro py_index_total) simp_all
    with row(1) show "\<exists>r. bindE (py_index qkv t) (\<lambda>row. py_index row (off + d)) = Inr r"
      by simp
  qed
qed

lemma attn_scores_total:
  assumes "shaped n D Q" and "shaped n D K" and "scale \<noteq> 0" and "0 \<le> i" and "i < n"
  shows "\<exists>scores. attn_scores Q K D scale n i = Inr scores \<and> int (length scores) = n"
  unfolding attn_scores_def
proof (rule mapM_range_length)
  show "0 \<le> n" using assms(4,5) by simp
next
  fix j assume j: "0 \<le> j" "j < n"
  show "\<exists>r. (if i < j then Inr (- 1000000000)
             else bindE (mapM (\<lambda>d. bindE (py_index Q i) (\<lambda>Qi. bindE (py_index Qi d) (\<lambda>q.
                     bindE (py_index K j) (\<lambda>Kj. bindE (py_index Kj d) (\<lambda>k. Inr ((q * k) div SCALE))))))
                   (range_py D))
                  (\<lambda>terms. let score = sum_list terms in py_floordiv (score * SCALE) scale)) = Inr r"
  proof (cases "i < j")
    case True
    then show ?thesis by simp
  next
    case False
    from shaped_row [OF assms(1,4,5)] obtain Qi where Qi: "py_index Q i = Inr Qi" "int (length Qi) = D"
      by auto
    from shaped_row [OF assms(2) j] obtain Kj where Kj: "py_index K j = Inr Kj" "int (length Kj) = D"
      by auto
    have "\<exists>terms. mapM (\<lambda>d. bindE (py_index Q i) (\<lambda>Qi. bindE (py_index Qi d) (\<lambda>q.
                     bindE (py_index K j) (\<lambda>Kj. bindE (py_index Kj d) (\<lambda>k. Inr ((q * k) div SCALE))))))
                   (range_py D) = Inr terms \<and> length terms = length (range_py D) \<and> (\<forall>y\<in>set terms. True)"
    proof (rule mapM_total)
      fix d assume "d \<in> set (range_py D)"
      then have d: "0 \<le> d" "d < D" by (simp_all add: set_range_py)
      with Qi(2) Kj(2) obtain q k where "py_index Qi d = Inr q" "py_index Kj d = Inr k"
        using py_index_total [of d Qi] py_index_total [of d Kj] by auto
      with Qi(1) Kj(1) show "\<exists>y. bindE (py_index Q i) (\<lambda>Qi. bindE (py_index Qi d) (\<lambda>q.
                     bindE (py_index K j) (\<lambda>Kj. bindE (py_index Kj d) (\<lambda>k. Inr ((q * k) div SCALE))))) = Inr y \<and> True"
        by simp
    qed
    then show ?thesis
      using False assms(3) by (auto simp: py_floordiv_def Let_def)
  qed
qed

lemma fp_softmax_length: "fp_softmax arr = Inr out \<Longrightarrow> length out = length arr"
  by (auto simp: fp_softmax_def bindE_eq_Inr Let_def softmax_exps_def)

lemma attn_apply_total:
  assumes "int (length probs) = n" and "shaped n D V" and "0 \<le> D"
  shows "\<exists>out. attn_apply probs V D n = Inr out \<and> int (length out) = D"
  unfolding attn_apply_def
proof (rule mapM_range_length [OF assms(3)])
  fix d assume d: "0 \<le> d" "d < D"
  have "\<exists>terms. mapM (\<lambda>j. bindE (py_index probs j) (\<lambda>p. bindE (py_index V j) (\<lambda>Vj.
          bindE (py_index Vj d) (\<lambda>v. Inr ((p * v) div SCALE))))) (range_py n) = Inr terms
        \<and> length terms = length (range_py n) \<and> (\<forall>y\<in>set terms. True)"
  proof (rule mapM_total)
    fix j assume "j \<in> set (range_py n)"
    then have j: "0 \<le> j" "j < n" by (simp_all add: set_range_py)
    from shaped_row [OF assms(2) j] obtain Vj where Vj: "py_index V j = Inr Vj" "int (length Vj) = D"
      by auto
    with d j assms(1) obtain p v where "py_index probs j = Inr p" "py_index Vj d = Inr v"
      using py_index_total [of j probs] py_index_total [of d Vj] by auto
    with Vj(1) show "\<exists>y. bindE (py_index probs j) (\<lambda>p. bindE (py_index V j) (\<lambda>Vj.
          bindE (py_index Vj d) (\<lambda>v. Inr ((p * v) div SCALE)))) = Inr y \<and> True"
      by simp
  qed
  then show "\<exists>r. bindE (mapM (\<lambda>j. bindE (py_index probs j) (\<lambda>p. bindE (py_index V j) (\<lambda>Vj.
          bindE (py_index Vj d) (\<lambda>v. Inr ((p * v) div SCALE))))) (range_py n))
        (\<lambda>terms. Inr (sum_list terms)) = Inr r"
    by auto
qed

lemma attention_position_total:
  assumes "shaped n D Q" and "shaped n D K" and "shaped n D V" and "scale \<noteq> 0"
    and "0 \<le> i" and "i < n" and "0 \<le> D"
  shows "\<exists>r. attention_position Q K V D scale n i = Inr r \<and> int (length (snd r)) = D"
proof -
  from attn_scores_total [OF assms(1,2,4,5,6)] obtain scores where
    s: "attn_scores Q K D scale n i = Inr scores" "int (length scores) = n"
    by auto
  with assms(5,6) have "scores \<noteq> []" by auto
  then obtain probs where p: "fp_softmax scores = Inr probs"
    by (simp add: fp_softmax_nonempty)
  from s(2) fp_softmax_length [OF p] have "int (length probs) = n" by simp
  from attn_apply_total [OF this assms(3,7)] obtain out where
    "attn_apply probs V D n = Inr out" "int (length out) = D" by auto
  with s(1) p show ?thesis
    by (simp add: attention_position_def)
qed

lemma has_len_get: "has_len weights name n \<Longrightarrow> \<exists>ws. dict_get weights name = Inr ws \<and> int (length ws) = n"
  by (auto simp: has_len_def dict_get_def split: option.splits)

lemma attention_head_total:
  assumes "shaped n (3 * E) qkv" and "0 \<le> h" and "h < H" and "H * D = E" and "0 < D" and "scale \<noteq> 0"
  shows "\<exists>outs. attention_head qkv E D scale n h = Inr outs \<and> shaped n D (map snd outs)"
proof -
  have n: "0 \<le> n" using assms(1) by (auto simp: shaped_def)
  have off: "0 \<le> h * D" using assms(2,5) by simp
  have "(h + 1) * D \<le> H * D"
    using assms(3,5) by (intro mult_right_mono) simp_all
  then have top: "h * D + D \<le> E"
    using assms(4) by (simp add: distrib_right)
  have E: "0 \<le> E" using off top assms(5) by linarith
  from head_slice_total [OF assms(1), of "h * D" D] off top E assms(5)
  obtain Q where Q: "head_slice qkv (h * D) D n = Inr Q" "shaped n D Q" by auto
  from head_slice_total [OF assms(1), of "E + h * D" D] off top E assms(5)
  obtain K where K: "head_slice qkv (E + h * D) D n = Inr K" "shaped n D K" by auto
  from head_slice_total [OF assms(1), of "2 * E + h * D" D] off top E assms(5)
  obtain V where V: "head_slice qkv (2 * E + h * D) D n = Inr V" "shaped n D V" by auto
  have "\<exists>outs. mapM (attention_position Q K V D scale n) (range_py n) = Inr outs
      \<and> length outs = length (range_py n) \<and> (\<forall>r\<in>set outs. int (length (snd r)) = D)"
  proof (rule mapM_total)
    fix i assume "i \<in> set (range_py n)"
    then have i: "0 \<le> i" "i < n" by (simp_all add: set_range_py)
    from assms(5) have "0 \<le> D" by simp
    from attention_position_total [OF Q(2) K(2) V(2) assms(6) i this]
    show "\<exists>r. attention_position Q K V D scale n i = Inr r \<and> int (length (snd r)) = D" .
  qed
  then obtain outs where outs: "mapM (attention_position Q K V D scale n) (range_py n) = Inr outs"
    "length outs = nat n" "\<forall>r\<in>set outs. int (length (snd r)) = D"
    by auto
  from outs(2,3) n have "shaped n D (map snd outs)"
    by (auto simp: shaped_def)
  with Q(1) K(1) V(1) outs(1) show ?thesis
    by (simp add: attention_head_def Let_def)
qed

lemma qkv_proj_total:
  assumes "shaped n E hidden" and "int (length attn_w) = E * (3 * E)" and "int (length attn_b) = 3 * E"
  shows "\<exists>qkv. qkv_proj hidden E attn_w attn_b = Inr qkv \<and> shaped n (3 * E) qkv"
proof -
  have n: "int (length hidden) = n" "0 \<le> n" using assms(1) by (auto simp: shaped_def)
  have "\<exists>qkv. mapM (\<lambda>t. bindE (py_index hidden t) (\<lambda>x. dense x E (3 * E) attn_w attn_b))
           (range_py n) = Inr qkv \<and> shaped n (3 * E) qkv"
  proof (rule mapM_shaped [OF n(2)])
    fix t assume t: "0 \<le> t" "t < n"
    from shaped_row [OF assms(1) t] obtain x where x: "py_index hidden t = Inr x" "int (length x) = E"
      by auto
    from dense_total [OF x(2) assms(2,3)] x(1)
    show "\<exists>r. bindE (py_index hidden t) (\<lambda>x. dense x E (3 * E) attn_w attn_b) = Inr r
        \<and> int (length r) = 3 * E"
      by simp
  qed
  then show ?thesis
    unfolding qkv_proj_def Let_def n(1) .
qed

lemma length_concat_uniform:
  "\<forall>r\<in>set rows. int (length r) = D \<Longrightarrow> int (length (concat rows)) = int (length rows) * D"
  by (induction rows) (simp_all add: distrib_right)

lemma concat_heads_total:
  assumes "int (length heads) = H" and "\<forall>outs\<in>set heads. shaped n D outs" and "0 \<le> n"
  shows "\<exists>rows. mapM (\<lambda>t. bindE (mapM (\<lambda>h. bindE (py_index heads h) (\<lambda>outs. py_index outs t))
                                  (range_py H)) (\<lambda>rows. Inr (concat rows)))
                 (range_py n) = Inr rows \<and> shaped n (H * D) rows"
proof (rule mapM_shaped [OF assms(3)])
  fix t assume t: "0 \<le> t" "t < n"
  have "\<exists>rows. mapM (\<lambda>h. bindE (py_index heads h) (\<lambda>outs. py_index outs t)) (range_py H) = Inr rows
      \<and> length rows = length (range_py H) \<and> (\<forall>r\<in>set rows. int (length r) = D)"
  proof (rule mapM_total)
    fix h assume "h \<in> set (range_py H)"
    then have h: "0 \<le> h" "h < H" by (simp_all add: set_range_py)
    then have "nat h < length heads" using assms(1) by auto
    then have "heads ! nat h \<in> set heads" by simp
    with assms(2) have sh: "shaped n D (heads ! nat h)" by simp
    from h assms(1) have "py_index heads h = Inr (heads ! nat h)"
      by (simp add: py_index_nonneg)
    with shaped_row [OF sh t]
    show "\<exists>y. bindE (py_index heads h) (\<lambda>outs. py_index outs t) = Inr y \<and> int (length y) = D"
      by simp
  qed
  then obtain rows where rows: "mapM (\<lambda>h. bindE (py_index heads h) (\<lambda>outs. py_index outs t)) (range_py H) = Inr rows"
    "length rows = nat H" "\<forall>r\<in>set rows. int (length r) = D"
    by auto
  have "0 \<le> H" using assms(1) [symmetric] by simp
  with rows(2) length_concat_uniform [OF rows(3)] have "int (length (concat rows)) = H * D"
    by simp
  with rows(1) show "\<exists>r. bindE (mapM (\<lambda>h. bindE (py_index heads h) (\<lambda>outs. py_index outs t))
                                  (range_py H)) (\<lambda>rows. Inr (concat rows)) = Inr r \<and> int (length r) = H * D"
    by simp
qed

lemma dense_rows_total:
  assumes "shaped n n_in M" and "int (length w) = n_in * n_out" and "int (length b) = n_out"
  shows "\<exists>out. mapM (\<lambda>t. bindE (py_index M t) (\<lambda>x. dense x n_in n_out w b)) (range_py n) = Inr out
           \<and> shaped n n_out out"
proof (rule mapM_shaped)
  show "0 \<le> n" using assms(1) by (auto simp: shaped_def)
next
  fix t assume t: "0 \<le> t" "t < n"
  from shaped_row [OF assms(1) t] obtain x where x: "py_index M t = Inr x" "int (length x) = n_in"
    by auto
  from dense_total [OF x(2) assms(2,3)] x(1)
  show "\<exists>r. bindE (py_index M t) (\<lambda>x. dense x n_in n_out w b) = Inr r \<and> int (length r) = n_out"
    by simp
qed

lemma multi_head_attention_total:
  assumes "config ''n_embd'' = Some E" and "config ''n_head'' = Some H"
    and "config ''head_dim'' = Some D" and "H * D = E" and "0 < H" and "0 < E"
    and "has_len weights (layer_key ''attn_w_'' layer) (E * (3 * E))"
    and "has_len weights (layer_key ''attn_b_'' layer) (3 * E)"
    and "has_len weights (layer_key ''attn_proj_w_'' layer) (E * E)"
    and "has_len weights (layer_key ''attn_proj_b_'' layer) E"
    and "shaped n E hidden"
  shows "\<exists>out. multi_head_attention hidden layer config weights = Inr out \<and> shaped n E out"
proof -
  have n: "int (length hidden) = n" "0 \<le> n" using assms(11) by (auto simp: shaped_def)
  have D: "0 < D"
  proof (rule ccontr)
    assume "\<not> 0 < D"
    then have "H * D \<le> 0" using assms(5) by (simp add: mult_le_0_iff)
    with assms(4,6) show False by simp
  qed
  from has_len_get [OF assms(7)] obtain attn_w where
    aw: "dict_get weights (layer_key ''attn_w_'' layer) = Inr attn_w" "int (length attn_w) = E * (3 * E)" by auto
  from has_len_get [OF assms(8)] obtain attn_b where
    ab: "dict_get weights (layer_key ''attn_b_'' layer) = Inr attn_b" "int (length attn_b) = 3 * E" by auto
  from has_len_get [OF assms(9)] obtain proj_w where
    pw: "dict_get weights (layer_key ''attn_proj_w_'' layer) = Inr proj_w" "int (length proj_w) = E * E" by auto
  from has_len_get [OF assms(10)] obtain proj_b where
    pb: "dict_get weights (layer_key ''attn_proj_b_'' layer) = Inr proj_b" "int (length proj_b) = E" by auto
  from qkv_proj_total [OF assms(11) aw(2) ab(2)] obtain qkv where
    qkv: "qkv_proj hidden E attn_w attn_b = Inr qkv" "shaped n (3 * E) qkv" by auto
  from fp_sqrt_pos [of "D * SCALE"] D obtain scale where
    scale: "fp_sqrt (D * SCALE) = Inr scale" "0 < scale" by (auto simp: SCALE_def)
  have "\<exists>heads. mapM (attention_head qkv E D scale n) (range_py H) = Inr heads
      \<and> length heads = length (range_py H) \<and> (\<forall>outs\<in>set heads. shaped n D (map snd outs))"
  proof (rule mapM_total)
    fix h assume "h \<in> set (range_py H)"
    then have h: "0 \<le> h" "h < H" by (simp_all add: set_range_py)
    from scale(2) have "scale \<noteq> 0" by simp
    from attention_head_total [OF qkv(2) h assms(4) D this]
    show "\<exists>y. attention_head qkv E D scale n h = Inr y \<and> shaped n D (map snd y)" .
  qed
  then obtain heads where heads: "mapM (attention_head qkv E D scale n) (range_py H) = Inr heads"
    "int (length heads) = H" "\<forall>outs\<in>set heads. shaped n D (map snd outs)"
    using assms(5) by auto
  define all_head_outputs where "all_head_outputs = map (map snd) heads"
  have aho: "int (length all_head_outputs) = H" "\<forall>outs\<in>set all_head_outputs. shaped n D outs"
    using heads(2,3) by (auto simp: all_head_outputs_def)
  from concat_heads_total [OF aho n(2)] obtain rows where
    rows: "mapM (\<lambda>t. bindE (mapM (\<lambda>h. bindE (py_index all_head_outputs h) (\<lambda>outs. py_index outs t))
                                  (range_py H)) (\<lambda>rows. Inr (concat rows)))
                 (range_py n) = Inr rows" "shaped n E rows"
    unfolding assms(4) by auto
  from dense_rows_total [OF rows(2) pw(2) pb(2)] obtain out where
    out: "mapM (\<lambda>t. bindE (py_index rows t) (\<lambda>x. dense x E E proj_w proj_b)) (range_py n) = Inr out"
    "shaped n E out" by auto
  have "multi_head_attention_trace hidden layer config weights = Inr (map (map fst) heads, out)"
    unfolding multi_head_attention_trace_def Let_def n(1)
    by (simp add: dict_get_Some assms(1-3) aw(1) ab(1) pw(1) pb(1) qkv(1) scale(1) heads(1)
        rows(1) [unfolded all_head_outputs_def] out(1))
  with out(2) show ?thesis
    by (auto simp: multi_head_attention_Inr)
qed

lemma feed_forward_total:
  assumes "config ''n_embd'' = Some E" and "config ''hidden_dim'' = Some F"
    and "has_len weights (layer_key ''ffn_fc1_w_'' layer) (E * F)"
    and "has_len weights (layer_key ''ffn_fc1_b_'' layer) F"
    and "has_len weights (layer_key ''ffn_fc2_w_'' layer) (F * E)"
    and "has_len weights (layer_key ''ffn_fc2_b_'' layer) E"
    and "shaped n E hidden"
  shows "\<exists>out. feed_forward hidden layer config weights = Inr out \<and> shaped n E out"
proof -
  have n: "int (length hidden) = n" "0 \<le> n" using assms(7) by (auto simp: shaped_def)
  from has_len_get [OF assms(3)] obtain fc1_w where
    w1: "dict_get weights (layer_key ''ffn_fc1_w_'' layer) = Inr fc1_w" "int (length fc1_w) = E * F" by auto
  from has_len_get [OF assms(4)] obtain fc1_b where
    b1: "dict_get weights (layer_key ''ffn_fc1_b_'' layer) = Inr fc1_b" "int (length fc1_b) = F" by auto
  from has_len_get [OF assms(5)] obtain fc2_w where
    w2: "dict_get weights (layer_key ''ffn_fc2_w_'' layer) = Inr fc2_w" "int (length fc2_w) = F * E" by auto
  from has_len_get [OF assms(6)] obtain fc2_b where
    b2: "dict_get weights (layer_key ''ffn_fc2_b_'' layer) = Inr fc2_b" "int (length fc2_b) = E" by auto
  have "\<exists>out. mapM (\<lambda>t. bindE (py_index hidden t) (\<lambda>x. bindE (dense x E F fc1_w fc1_b) (\<lambda>pre.
            let intermediate = map fp_gelu pre in dense intermediate F E fc2_w fc2_b)))
          (range_py n) = Inr out \<and> shaped n E out"
  proof (rule mapM_shaped [OF n(2)])
    fix t assume t: "0 \<le> t" "t < n"
    from shaped_row [OF assms(7) t] obtain x where x: "py_index hidden t = Inr x" "int (length x) = E"
      by auto
    from dense_total [OF x(2) w1(2) b1(2)] obtain pre where
      pre: "dense x E F fc1_w fc1_b = Inr pre" "int (length pre) = F" by auto
    then have "int (length (map fp_gelu pre)) = F" by simp
    from dense_total [OF this w2(2) b2(2)] x(1) pre(1)
    show "\<exists>r. bindE (py_index hidden t) (\<lambda>x. bindE (dense x E F fc1_w fc1_b) (\<lambda>pre.
            let intermediate = map fp_gelu pre in dense intermediate F E fc2_w fc2_b)) = Inr r
          \<and> int (length r) = E"
      by (simp add: Let_def)
  qed
  then show ?thesis
    unfolding feed_forward_def Let_def n(1)
    by (simp add: dict_get_Some assms(1,2) w1(1) b1(1) w2(1) b2(1))
qed

lemma residual_total:
  assumes "shaped n E a" and "shaped n E b"
  shows "\<exists>out. residual a b n = Inr out \<and> shaped n E out"
  unfolding residual_def
proof (rule mapM_shaped)
  show "0 \<le> n" using assms(1) by (auto simp: shaped_def)
next
  fix t assume t: "0 \<le> t" "t < n"
  from shaped_row [OF assms(1) t] obtain at where at: "py_index a t = Inr at" "int (length at) = E"
    by auto
  from shaped_row [OF assms(2) t] obtain bt where bt: "py_index b t = Inr bt" "int (length bt) = E"
    by auto
  have "\<exists>r. mapM (\<lambda>i. bindE (py_index at i) (\<lambda>x. bindE (py_index b t) (\<lambda>bt.
          bindE (py_index bt i) (\<lambda>y. Inr (x + y))))) (range_py (int (length at))) = Inr r
        \<and> int (length r) = int (length at)"
  proof (rule mapM_range_length)
    fix i assume i: "0 \<le> i" "i < int (length at)"
    with at(2) bt(2) obtain x y where "py_index at i = Inr x" "py_index bt i = Inr y"
      using py_index_total [of i at] py_index_total [of i bt] by auto
    with bt(1) show "\<exists>r. bindE (py_index at i) (\<lambda>x. bindE (py_index b t) (\<lambda>bt.
          bindE (py_index bt i) (\<lambda>y. Inr (x + y)))) = Inr r"
      by simp
  qed simp
  with at(1) have "\<exists>r. bindE (py_index a t) (\<lambda>at. mapM (\<lambda>i. bindE (py_index at i) (\<lambda>x.
          bindE (py_index b t) (\<lambda>bt. bindE (py_index bt i) (\<lambda>y. Inr (x + y)))))
        (range_py (int (length at)))) = Inr r \<and> int (length r) = int (length at)"
    by simp
  then show "\<exists>r. bindE (py_index a t) (\<lambda>at. mapM (\<lambda>i. bindE (py_index at i) (\<lambda>x.
          bindE (py_index b t) (\<lambda>bt. bindE (py_index bt i) (\<lambda>y. Inr (x + y)))))
        (range_py (int (length at)))) = Inr r \<and> int (length r) = E"
    unfolding at(2) .
qed

lemma layer_norm_total:
  assumes "int (length inp) = E" and "0 < E" and "int (length gamma) = E" and "int (length beta) = E"
  shows "\<exists>out. layer_norm inp gamma beta = Inr out \<and> int (length out) = E"
proof -
  have "inp \<noteq> []" "length gamma = length inp" "length beta = length inp"
    using assms by auto
  from layer_norm_value [OF this] assms(1) show ?thesis
    by auto
qed

lemma layer_norm_rows_total:
  assumes "shaped n E M" and "0 < E" and "int (length gamma) = E" and "int (length beta) = E"
  shows "\<exists>out. mapM (\<lambda>t. bindE (py_index M t) (\<lambda>x. layer_norm x gamma beta)) (range_py n) = Inr out
           \<and> shaped n E out"
proof (rule mapM_shaped)
  show "0 \<le> n" using assms(1) by (auto simp: shaped_def)
next
  fix t assume t: "0 \<le> t" "t < n"
  from shaped_row [OF assms(1) t] obtain x where x: "py_index M t = Inr x" "int (length x) = E"
    by auto
  from layer_norm_total [OF x(2) assms(2,3,4)] x(1)
  show "\<exists>r. bindE (py_index M t) (\<lambda>x. layer_norm x gamma beta) = Inr r \<and> int (length r) = E"
    by simp
qed

lemma transformer_block_total:
  assumes "config ''n_embd'' = Some E" and "config ''n_head'' = Some H"
    and "config ''head_dim'' = Some D" and "config ''hidden_dim'' = Some F"
    and "H * D = E" and "0 < H" and "0 < E"
    and "valid_layer weights E F layer" and "shaped n E hidden"
  shows "\<exists>out. transformer_block hidden layer config weights = Inr out \<and> shaped n E out"
proof -
  have n: "int (length hidden) = n" using assms(9) by (auto simp: shaped_def)
  note v = assms(8) [unfolded valid_layer_def]
  from v has_len_get obtain ln1_w ln1_b ln2_w ln2_b where
    g1: "dict_get weights (layer_key ''ln1_w_'' layer) = Inr ln1_w" "int (length ln1_w) = E"
    and b1: "dict_get weights (layer_key ''ln1_b_'' layer) = Inr ln1_b" "int (length ln1_b) = E"
    and g2: "dict_get weights (layer_key ''ln2_w_'' layer) = Inr ln2_w" "int (length ln2_w) = E"
    and b2: "dict_get weights (layer_key ''ln2_b_'' layer) = Inr ln2_b" "int (length ln2_b) = E"
    by metis
  from layer_norm_rows_total [OF assms(9,7) g1(2) b1(2)] obtain normed1 where
    n1: "mapM (\<lambda>t. bindE (py_index hidden t) (\<lambda>x. layer_norm x ln1_w ln1_b)) (range_py n) = Inr normed1"
    "shaped n E normed1" by auto
  from v have "\<exists>out. multi_head_attention normed1 layer config weights = Inr out \<and> shaped n E out"
    by (intro multi_head_attention_total [OF assms(1,2,3,5,6,7)] n1(2)) simp_all
  then obtain attn_out where
    at: "multi_head_attention normed1 layer config weights = Inr attn_out" "shaped n E attn_out" by auto
  from residual_total [OF assms(9) at(2)] obtain residual1 where
    r1: "residual hidden attn_out n = Inr residual1" "shaped n E residual1" by auto
  from layer_norm_rows_total [OF r1(2) assms(7) g2(2) b2(2)] obtain normed2 where
    n2: "mapM (\<lambda>t. bindE (py_index residual1 t) (\<lambda>x. layer_norm x ln2_w ln2_b)) (range_py n) = Inr normed2"
    "shaped n E normed2" by auto
  from v have "\<exists>out. feed_forward normed2 layer config weights = Inr out \<and> shaped n E out"
    by (intro feed_forward_total [OF assms(1,4)] n2(2)) simp_all
  then obtain ffn_out where
    ff: "feed_forward normed2 layer config weights = Inr ffn_out" "shaped n E ffn_out" by auto
  from residual_total [OF r1(2) ff(2)] obtain out where
    out: "residual residual1 ffn_out n = Inr out" "shaped n E out" by auto
  show ?thesis
    unfolding transformer_block_def Let_def n
    by (simp add: g1(1) b1(1) g2(1) b2(1) n1(1) at(1) r1(1) n2(1) ff(1) out)
qed

lemma run_blocks_total:
  assumes "config ''n_embd'' = Some E" and "config ''n_head'' = Some H"
    and "config ''head_dim'' = Some D" and "config ''hidden_dim'' = Some F"
    and "H * D = E" and "0 < H" and "0 < E"
    and "\<forall>layer\<in>set (range_py L). valid_layer weights E F layer" and "shaped n E hidden"
  shows "\<exists>out. run_blocks hidden L config weights = Inr out \<and> shaped n E out"
  unfolding run_blocks_def
proof (rule foldM_invariant [where I = "shaped n E", OF assms(9)])
  fix s layer
  assume "shaped n E s" and "layer \<in> set (range_py L)"
  with assms(8) show "\<exists>s'. transformer_block s layer config weights = Inr s' \<and> shaped n E s'"
    by (intro transformer_block_total [OF assms(1-7)]) simp_all
qed

lemma embed_row_total:
  assumes "int (length wte) = V * E" and "int (length wpe) = W * E" and "0 \<le> E"
    and "0 \<le> tok" and "tok < V" and "0 \<le> t" and "t < W"
  shows "\<exists>row. embed_row wte wpe E t tok = Inr row \<and> int (length row) = E"
  unfolding embed_row_def Let_def
proof (rule mapM_range_length [OF assms(3)])
  fix i assume i: "0 \<le> i" "i < E"
  from flat_index_bound [OF assms(4,5) i] assms(1) obtain a where "py_index wte (tok * E + i) = Inr a"
    using py_index_total [of "tok * E + i" wte] by auto
  moreover from flat_index_bound [OF assms(6,7) i] assms(2) obtain b where "py_index wpe (t * E + i) = Inr b"
    using py_index_total [of "t * E + i" wpe] by auto
  ultimately show "\<exists>r. bindE (py_index wte (tok * E + i)) (\<lambda>a.
      bindE (py_index wpe (t * E + i)) (\<lambda>b. Inr (a + b))) = Inr r"
    by simp
qed

lemma embed_total:
  assumes "int (length wte) = V * E" and "int (length wpe) = W * E" and "0 \<le> E"
    and "\<forall>tok\<in>set tokens. 0 \<le> tok \<and> tok < V" and "int (length tokens) \<le> W"
  shows "\<exists>hidden. embed_tokens wte wpe E tokens = Inr hidden \<and> shaped (int (length tokens)) E hidden"
proof -
  have "\<exists>hidden. mapM (\<lambda>(t, tok). embed_row wte wpe E t tok) (zip (range_py (int (length tokens))) tokens) = Inr hidden
      \<and> length hidden = length (zip (range_py (int (length tokens))) tokens)
      \<and> (\<forall>row\<in>set hidden. int (length row) = E)"
  proof (rule mapM_total)
    fix x assume x: "x \<in> set (zip (range_py (int (length tokens))) tokens)"
    obtain t tok where xt: "x = (t, tok)" by (cases x)
    with x have "t \<in> set (range_py (int (length tokens)))" "tok \<in> set tokens"
      by (auto dest: set_zip_leftD set_zip_rightD)
    with assms(4,5) have "0 \<le> tok" "tok < V" "0 \<le> t" "t < W"
      by (auto simp: set_range_py simp del: range_py_int)
    from embed_row_total [OF assms(1,2,3) this] xt
    show "\<exists>y. (case x of (t, tok) \<Rightarrow> embed_row wte wpe E t tok) = Inr y \<and> int (length y) = E"
      by simp
  qed
  then show ?thesis
    by (auto simp: embed_tokens_def shaped_def)
qed

lemma project_total:
  assumes "int (length last_hidden) = E" and "int (length wte) = V * E" and "0 \<le> V"
  shows "\<exists>logits. project last_hidden wte E V = Inr logits \<and> int (length logits) = V"
  unfolding project_def Let_def
proof (rule mapM_range_length [OF assms(3)])
  fix v assume v: "0 \<le> v" "v < V"
  have "\<exists>terms. mapM (\<lambda>i. bindE (py_index last_hidden i) (\<lambda>a.
          bindE (py_index wte (v * E + i)) (\<lambda>b. Inr ((a * b) div SCALE)))) (range_py E) = Inr terms
        \<and> length terms = length (range_py E) \<and> (\<forall>y\<in>set terms. True)"
  proof (rule mapM_total)
    fix i assume "i \<in> set (range_py E)"
    then have i: "0 \<le> i" "i < E" by (simp_all add: set_range_py)
    with assms(1) obtain a where "py_index last_hidden i = Inr a"
      using py_index_total [of i last_hidden] by auto
    moreover from flat_index_bound [OF v i] assms(2) obtain b where "py_index wte (v * E + i) = Inr b"
      using py_index_total [of "v * E + i" wte] by auto
    ultimately show "\<exists>y. bindE (py_index last_hidden i) (\<lambda>a.
          bindE (py_index wte (v * E + i)) (\<lambda>b. Inr ((a * b) div SCALE))) = Inr y \<and> True"
      by simp
  qed
  then show "\<exists>r. bindE (mapM (\<lambda>i. bindE (py_index last_hidden i) (\<lambda>a.
          bindE (py_index wte (v * E + i)) (\<lambda>b. Inr ((a * b) div SCALE)))) (range_py E))
        (\<lambda>terms. Inr (sum_list terms)) = Inr r"
    by auto
qed

lemma py_index_last_total: "xs \<noteq> [] \<Longrightarrow> py_index xs (- 1) = Inr (last xs)"
  by (cases xs rule: rev_cases) (simp_all add: py_index_def nth_append)

lemma length_truncate: "0 \<le> W \<Longrightarrow> int (length (truncate tokens W)) = min (int (length tokens)) W"
  by (simp add: truncate_def py_slice_to_def Let_def)

lemma forward_total:
  assumes "valid_model E H L V W config weights" and "tokens \<noteq> []"
    and "\<forall>tok\<in>set tokens. 0 \<le> tok \<and> tok < V"
  shows "\<exists>logits. forward tokens config weights = Inr logits \<and> int (length logits) = V"
proof -
  note v = assms(1) [unfolded valid_model_def]
  from v have pos: "0 < E" "0 < H" "0 < V" "0 < W" and HD: "H * (E div H) = E"
    and cfg: "config ''n_embd'' = Some E" "config ''n_head'' = Some H" "config ''n_layer'' = Some L"
      "config ''vocab_size'' = Some V" "config ''block_size'' = Some W"
      "config ''head_dim'' = Some (E div H)" "config ''hidden_dim'' = Some (4 * E)"
    and layers: "\<forall>layer\<in>set (range_py L). valid_layer weights E (4 * E) layer"
    by simp_all
  from v has_len_get obtain wte wpe ln_f_w ln_f_b where
    wte: "dict_get weights ''wte'' = Inr wte" "int (length wte) = V * E"
    and wpe: "dict_get weights ''wpe'' = Inr wpe" "int (length wpe) = W * E"
    and g: "dict_get weights ''ln_f_w'' = Inr ln_f_w" "int (length ln_f_w) = E"
    and b: "dict_get weights ''ln_f_b'' = Inr ln_f_b" "int (length ln_f_b) = E"
    by metis
  define toks where "toks = truncate tokens W"
  have len: "int (length toks) = min (int (length tokens)) W"
    unfolding toks_def using pos(4) by (intro length_truncate) simp
  then have lenW: "int (length toks) \<le> W" by simp
  have "0 < int (length tokens)" using assms(2) by simp
  with len pos(4) have n: "0 < int (length toks)" by linarith
  have rng: "\<forall>tok\<in>set toks. 0 \<le> tok \<and> tok < V"
    unfolding toks_def using assms(3) set_truncate [of tokens W] by blast
  from embed_total [OF wte(2) wpe(2) _ rng lenW] pos(1) obtain emb where
    emb: "embed_tokens wte wpe E toks = Inr emb" "shaped (int (length toks)) E emb" by auto
  from run_blocks_total [OF cfg(1,2,6,7) HD pos(2,1) layers emb(2)] obtain hidden where
    hid: "run_blocks emb L config weights = Inr hidden" "shaped (int (length toks)) E hidden" by auto
  from hid(2) n have ne: "hidden \<noteq> []"
    by (auto simp: shaped_def)
  then have lst: "py_index hidden (- 1) = Inr (last hidden)"
    by (rule py_index_last_total)
  from ne hid(2) have "int (length (last hidden)) = E"
    by (simp add: shaped_def)
  from layer_norm_total [OF this pos(1) g(2) b(2)] obtain last_hidden where
    lh: "layer_norm (last hidden) ln_f_w ln_f_b = Inr last_hidden"
    "int (length last_hidden) = E" by auto
  from project_total [OF lh(2) wte(2)] pos(3) obtain logits where
    lg: "project last_hidden wte E V = Inr logits" "int (length logits) = V" by auto
  show ?thesis
    unfolding forward_def forward_from_def Let_def
    by (simp add: dict_get_Some cfg wte(1) wpe(1) g(1) b(1) emb(1) [unfolded toks_def] hid(1) lst lh(1) lg)
qed

lemma small_model_valid: "valid_model 2 1 1 3 2 small_config small_weights"
  by code_simp

text \<open>
  Claim C9: on a well-shaped model, for every non-empty token sequence whose ids all lie
  in \<open>[-vocab_size, vocab_size)\<close> the forward pass does not fail, and it returns exactly
  the logits of the same sequence with each negative id \<open>tok\<close> replaced by
  \<open>tok + vocab_size\<close> (all of whose ids are in \<open>[0, vocab_size)\<close>): the lookup
  \<open>wte[tok * n_embd + i]\<close> with a negative index reads the row of \<open>tok + vocab_size\<close>.
\<close>

theorem forward_negative_ids_wrap:
  assumes "valid_model E H L V W config weights" and "tokens \<noteq> []"
    and "\<forall>tok\<in>set tokens. - V \<le> tok \<and> tok < V"
  shows "\<exists>logits. forward tokens config weights = Inr logits
           \<and> forward (map (wrap_token V) tokens) config weights = Inr logits
           \<and> (\<forall>tok\<in>set (map (wrap_token V) tokens). 0 \<le> tok \<and> tok < V)"
proof -
  note v = assms(1) [unfolded valid_model_def]
  from v has_len_get obtain wte where wte: "weights ''wte'' = Some wte" "int (length wte) = V * E"
    unfolding dict_get_Inr by metis
  from v have cfg: "config ''n_embd'' = Some E" "config ''vocab_size'' = Some V"
    by simp_all
  have rng: "\<forall>tok\<in>set (map (wrap_token V) tokens). 0 \<le> tok \<and> tok < V"
    using assms(3) by (auto simp: wrap_token_def)
  from assms(3) have lo: "\<forall>tok\<in>set tokens. - V \<le> tok" by simp
  have eq: "forward (map (wrap_token V) tokens) config weights = forward tokens config weights"
    using cfg wte lo by (rule forward_wrap)
  from forward_total [OF assms(1) _ rng] assms(2) obtain logits where
    w: "forward (map (wrap_token V) tokens) config weights = Inr logits" by auto
  with eq have "forward tokens config weights = Inr logits" by simp
  with w rng show ?thesis by blast
qed

theorem forward_negative_ids_wrap_witness:
  "\<exists>logits. forward [0, - 1] small_config small_weights = Inr logits
      \<and> forward [0, 2] small_config small_weights = Inr logits"
proof -
  from forward_negative_ids_wrap [OF small_model_valid, of "[0, - 1]"] show ?thesis
    by (simp add: wrap_token_def)
qed


end
